theory Spec2Isabelle
  imports Main "HOL-Library.Word"
begin

unbundle bit_operations_syntax

section \<open>Yamaha OPL operator: data model\<close>

text \<open>
  The embedding follows \<^verbatim>\<open>Components/OPL2/Implementation/Operator.cpp\<close> and
  \<^verbatim>\<open>Components/OPL2/OPL2.cpp\<close>. \<^verbatim>\<open>uint8_t\<close> register bytes are \<^typ>\<open>8 word\<close>. The raw
  phase accumulator, whose wrap-around matters, is a \<^typ>\<open>32 word\<close>, read as a signed
  \<^verbatim>\<open>int\<close> where the source shifts it right. The other \<^verbatim>\<open>int\<close> values (rates, levels,
  envelope attenuation, tick counter) are \<^typ>\<open>int\<close>: the rates, levels and attenuations
  stay far below the limits of the type, and the tick counter is modelled without its limit,
  which a voice reaches only after \<open>2 ^ 31\<close> ticks in one phase.

  Modelled from the spec: the declarations of \<^verbatim>\<open>Operator\<close>, \<^verbatim>\<open>OperatorState\<close>,
  \<^verbatim>\<open>OperatorOverrides\<close> and \<^verbatim>\<open>LogSign\<close> (Operator.hpp, Tables.h) are not part of the
  sources. The records below hold the members that Operator.cpp reads and writes, typed as
  the data model of the specification describes them. Member names lose the trailing
  underscore of the source; where three structures all have a member called
  \<^verbatim>\<open>attenuation\<close>, the operator's \<^verbatim>\<open>attenuation_\<close> is \<open>op_attenuation\<close> and the one
  of the overrides is \<open>ov_attenuation\<close>. The waveform enumeration is in the order of the rows
  of the mask table of \<^verbatim>\<open>Operator::update\<close>.

  A shift by a count that is negative or not below the width of the type, and an index
  outside an array, have no defined result in C++; the functions below return an \<open>error\<close>
  there.
\<close>

datatype error = UndefinedShift | IndexOutOfBounds | AssertionFailed

datatype Waveform = Sine | HalfSine | AbsSine | PulseSine

datatype ADSRPhase = Attack | Decay | Sustain | Release

record LogSign =
  logsin :: int
  sign :: int

record Operator =
  attack_rate :: int
  decay_rate :: int
  sustain_level :: int
  release_rate :: int
  level_key_scaling :: int
  op_attenuation :: int
  waveform :: Waveform
  apply_amplitude_modulation :: bool
  apply_vibrato :: bool
  use_sustain_level :: bool
  key_scaling_rate :: bool
  frequency_multiple :: int

record OperatorState =
  attenuation :: LogSign
  raw_phase :: "32 word"
  adsr_phase :: ADSRPhase
  time_in_phase :: int
  adsr_attenuation :: int
  last_key_on :: bool

record OperatorOverrides =
  ov_attenuation :: int
  ov_use_sustain_level :: bool

section \<open>Register decoders\<close>

definition set_attack_decay :: "8 word \<Rightarrow> Operator \<Rightarrow> Operator" where
  "set_attack_decay v opr =
     opr\<lparr>attack_rate := drop_bit 2 (uint (v AND 0xf0)),
         decay_rate := push_bit 2 (uint (v AND 0x0f))\<rparr>"

definition set_sustain_release :: "8 word \<Rightarrow> Operator \<Rightarrow> Operator" where
  "set_sustain_release v opr =
     opr\<lparr>sustain_level := drop_bit 4 (uint (v AND 0xf0)),
         release_rate := push_bit 2 (uint (v AND 0x0f))\<rparr>"

definition set_scaling_output :: "8 word \<Rightarrow> Operator \<Rightarrow> Operator" where
  "set_scaling_output v opr =
     opr\<lparr>level_key_scaling := drop_bit 6 (uint v),
         op_attenuation := uint (v AND 0x3f)\<rparr>"

definition waveform_of :: "8 word \<Rightarrow> Waveform" where
  "waveform_of v =
     (if v = 0 then Sine else if v = 1 then HalfSine else if v = 2 then AbsSine else PulseSine)"

definition set_waveform :: "8 word \<Rightarrow> Operator \<Rightarrow> Operator" where
  "set_waveform v opr = opr\<lparr>waveform := waveform_of (v AND 3)\<rparr>"

definition set_am_vibrato_hold_sustain_ksr_multiple :: "8 word \<Rightarrow> Operator \<Rightarrow> Operator" where
  "set_am_vibrato_hold_sustain_ksr_multiple v opr =
     opr\<lparr>apply_amplitude_modulation := (v AND 0x80 \<noteq> 0),
         apply_vibrato := (v AND 0x40 \<noteq> 0),
         use_sustain_level := (v AND 0x20 \<noteq> 0),
         key_scaling_rate := (v AND 0x10 \<noteq> 0),
         frequency_multiple := uint (v AND 0xf)\<rparr>"

section \<open>Broadphase audibility test\<close>

definition is_audible :: "Operator \<Rightarrow> OperatorState \<Rightarrow> OperatorOverrides option \<Rightarrow> bool" where
  "is_audible opr state overrides =
     (if adsr_phase state = Release \<and>
         (case overrides of
            Some ov \<Rightarrow> ov_attenuation ov = 0xf
          | None \<Rightarrow> op_attenuation opr = 0x3f)
      then False
      else adsr_attenuation state \<noteq> 511)"

section \<open>One tick of an operator\<close>

text \<open>
  The table of \<^verbatim>\<open>Operator::update\<close> that encodes MUL as twice the documented multiple.
\<close>

definition multipliers :: "int list" where
  "multipliers = [1, 2, 4, 6, 8, 10, 12, 14, 16, 18, 20, 20, 24, 24, 30, 30]"

text \<open>Per-quadrant masks, one row for each waveform.\<close>

definition waveforms :: "Waveform \<Rightarrow> int list" where
  "waveforms w =
     (case w of
        Sine \<Rightarrow> [1023, 1023, 1023, 1023]
      | HalfSine \<Rightarrow> [511, 511, 0, 0]
      | AbsSine \<Rightarrow> [511, 511, 511, 511]
      | PulseSine \<Rightarrow> [255, 0, 255, 0])"

text \<open>
  \<^verbatim>\<open>multipliers[frequency_multiple_] * channel_period << channel_octave\<close>, as it is added
  to the 32-bit accumulator: the product is shifted left, everything modulo \<open>2 ^ 32\<close>.
\<close>

definition phase_increment :: "int \<Rightarrow> int \<Rightarrow> int \<Rightarrow> 32 word" where
  "phase_increment multiple channel_period channel_octave =
     push_bit (nat channel_octave) (word_of_int (multipliers ! nat multiple * channel_period))"

text \<open>
  The source indexes a 16-entry array and shifts by \<^verbatim>\<open>channel_octave\<close>; an index outside
  the array and a shift count outside \<open>0..31\<close> have no defined result.
\<close>

definition update_raw_phase ::
  "Operator \<Rightarrow> OperatorState \<Rightarrow> int \<Rightarrow> int \<Rightarrow> error + OperatorState" where
  "update_raw_phase opr state channel_period channel_octave =
     (if frequency_multiple opr < 0 \<or> 16 \<le> frequency_multiple opr then Inl IndexOutOfBounds
      else if channel_octave < 0 \<or> 32 \<le> channel_octave then Inl UndefinedShift
      else Inr (state\<lparr>raw_phase := raw_phase state +
                  phase_increment (frequency_multiple opr) channel_period channel_octave\<rparr>))"

text \<open>
  The masked phase handed to \<^verbatim>\<open>negative_log_sin\<close>. The quadrant index
  \<^verbatim>\<open>(phase >> 8) & 3\<close> is always one of 0 to 3.
\<close>

definition masked_phase :: "Operator \<Rightarrow> OperatorState \<Rightarrow> int \<Rightarrow> int" where
  "masked_phase opr state phase_offset =
     (let phase = sint (signed_drop_bit 12 (raw_phase state)) + phase_offset
      in phase AND (waveforms (waveform opr) ! nat (drop_bit 8 phase AND 3)))"

text \<open>
  \<^verbatim>\<open>negative_log_sin\<close> lives in \<^verbatim>\<open>Tables.h\<close>, which is not part of the sources; it is
  the parameter \<open>negative_log_sin\<close> of the functions below.
\<close>

definition update_waveform ::
  "(int \<Rightarrow> LogSign) \<Rightarrow> Operator \<Rightarrow> OperatorState \<Rightarrow> int \<Rightarrow> OperatorState" where
  "update_waveform negative_log_sin opr state phase_offset =
     state\<lparr>attenuation := negative_log_sin (masked_phase opr state phase_offset)\<rparr>"

text \<open>Key-on logic: released whenever the key is off, attack on the leading edge.\<close>

definition key_on_logic :: "OperatorState \<Rightarrow> bool \<Rightarrow> OperatorState" where
  "key_on_logic state key_on =
     (if \<not> key_on then state\<lparr>adsr_phase := Release, time_in_phase := 0\<rparr>
      else if \<not> last_key_on state then state\<lparr>adsr_phase := Attack, time_in_phase := 0\<rparr>
      else state)
     \<lparr>last_key_on := key_on\<rparr>"

text \<open>
  \<^verbatim>\<open>1 << n\<close> on a C++ \<^verbatim>\<open>int\<close>: defined when \<open>n\<close> is not negative and the result
  fits the type.
\<close>

definition shift_left_one :: "int \<Rightarrow> error + int" where
  "shift_left_one n = (if 0 \<le> n \<and> n < 31 then Inr (push_bit (nat n) 1) else Inl UndefinedShift)"

text \<open>The attenuation after the subtraction of the attack branch, before the exit test.\<close>

definition attack_attenuation :: "Operator \<Rightarrow> OperatorState \<Rightarrow> error + int" where
  "attack_attenuation opr state =
     (if attack_rate opr \<ge> 56
      then Inr (adsr_attenuation state - drop_bit 2 (adsr_attenuation state) - 1)
      else
        (case shift_left_one (14 - drop_bit 2 (attack_rate opr)) of
           Inl e \<Rightarrow> Inl e
         | Inr sample_length \<Rightarrow>
             Inr (if time_in_phase state AND (sample_length - 1) = 0
                  then adsr_attenuation state - drop_bit 3 (adsr_attenuation state) - 1
                  else adsr_attenuation state)))"

definition attack_step :: "Operator \<Rightarrow> OperatorState \<Rightarrow> error + OperatorState" where
  "attack_step opr state =
     (case attack_attenuation opr state of
        Inl e \<Rightarrow> Inl e
      | Inr a \<Rightarrow>
          Inr (if attack_rate opr > 60 \<or> a \<le> 0
               then state\<lparr>adsr_attenuation := 0, adsr_phase := Decay\<rparr>
               else state\<lparr>adsr_attenuation := a\<rparr>))"

text \<open>The rate that governs the shared Decay/Release branch.\<close>

definition decrease_rate :: "Operator \<Rightarrow> OperatorState \<Rightarrow> int" where
  "decrease_rate opr state =
     (if adsr_phase state = Decay then decay_rate opr else release_rate opr)"

text \<open>The shift count of the default case: \<^verbatim>\<open>(decrease_rate >> 2) - 4\<close>.\<close>

definition decrease_shift :: "int \<Rightarrow> int" where
  "decrease_shift rate = drop_bit 2 rate - 4"

definition decrease_attenuation :: "Operator \<Rightarrow> OperatorState \<Rightarrow> error + int" where
  "decrease_attenuation opr state =
     (let rate = decrease_rate opr state in
      if rate \<noteq> 0 then
        (if drop_bit 2 rate = 1 then Inr (adsr_attenuation state + 4)
         else if drop_bit 2 rate = 2 then Inr (adsr_attenuation state + 2)
         else
           (case shift_left_one (decrease_shift rate) of
              Inl e \<Rightarrow> Inl e
            | Inr sample_length \<Rightarrow>
                Inr (if time_in_phase state AND (sample_length - 1) = 0
                     then adsr_attenuation state + 1
                     else adsr_attenuation state)))
      else Inr (adsr_attenuation state))"

definition decay_release_step ::
  "Operator \<Rightarrow> OperatorState \<Rightarrow> OperatorOverrides option \<Rightarrow> error + OperatorState" where
  "decay_release_step opr state overrides =
     (case decrease_attenuation opr state of
        Inl e \<Rightarrow> Inl e
      | Inr a \<Rightarrow>
          (let clamped = min a 511 in
           Inr (if adsr_phase state = Decay \<and> clamped \<ge> push_bit 5 (sustain_level opr)
                then state\<lparr>adsr_attenuation := push_bit 5 (sustain_level opr),
                           adsr_phase :=
                             (if (case overrides of Some ov \<Rightarrow> ov_use_sustain_level ov
                                                  | None \<Rightarrow> False)
                                 \<or> use_sustain_level opr
                              then Sustain else Release)\<rparr>
                else state\<lparr>adsr_attenuation := clamped\<rparr>)))"

definition adsr_step ::
  "Operator \<Rightarrow> OperatorState \<Rightarrow> OperatorOverrides option \<Rightarrow> error + OperatorState" where
  "adsr_step opr state overrides =
     (case adsr_phase state of
        Attack \<Rightarrow> attack_step opr state
      | Release \<Rightarrow> decay_release_step opr state overrides
      | Decay \<Rightarrow> decay_release_step opr state overrides
      | Sustain \<Rightarrow> Inr state)"

text \<open>The tick counter: one more tick in the phase, or a fresh phase.\<close>

definition count_tick :: "ADSRPhase \<Rightarrow> OperatorState \<Rightarrow> OperatorState" where
  "count_tick current_phase state =
     (if adsr_phase state = current_phase
      then state\<lparr>time_in_phase := time_in_phase state + 1\<rparr>
      else state\<lparr>time_in_phase := 0\<rparr>)"

text \<open>Combining the envelope with the channel's (or the operator's) attenuation.\<close>

definition combine_attenuation ::
  "Operator \<Rightarrow> OperatorState \<Rightarrow> OperatorOverrides option \<Rightarrow> OperatorState" where
  "combine_attenuation opr state overrides =
     state\<lparr>attenuation := (attenuation state)\<lparr>logsin := logsin (attenuation state) +
        (case overrides of
           Some ov \<Rightarrow> adsr_attenuation state + push_bit 4 (ov_attenuation ov)
         | None \<Rightarrow> push_bit 3 (adsr_attenuation state) + push_bit 5 (op_attenuation opr))\<rparr>\<rparr>"

text \<open>\<^verbatim>\<open>Operator::update\<close>: the stages above in the order of the source.\<close>

definition update ::
  "(int \<Rightarrow> LogSign) \<Rightarrow> Operator \<Rightarrow> OperatorState \<Rightarrow> bool \<Rightarrow> int \<Rightarrow> int \<Rightarrow> int \<Rightarrow>
     OperatorOverrides option \<Rightarrow> error + OperatorState" where
  "update negative_log_sin opr state key_on channel_period channel_octave phase_offset overrides =
     (case update_raw_phase opr state channel_period channel_octave of
        Inl e \<Rightarrow> Inl e
      | Inr s1 \<Rightarrow>
          (let s2 = update_waveform negative_log_sin opr s1 phase_offset;
               s3 = key_on_logic s2 key_on;
               current_phase = adsr_phase s3
           in case adsr_step opr s3 overrides of
                Inl e \<Rightarrow> Inl e
              | Inr s4 \<Rightarrow> Inr (combine_attenuation opr (count_tick current_phase s4) overrides)))"


section \<open>Running a voice\<close>

text \<open>
  One synthesis tick as the channel issues it: the operator configuration in force (register
  writes land between ticks), the key-on level, period, octave, phase offset and the
  optional overrides.
\<close>

record Tick =
  tick_operator :: Operator
  tick_key_on :: bool
  tick_period :: int
  tick_octave :: int
  tick_phase_offset :: int
  tick_overrides :: "OperatorOverrides option"

text \<open>Consecutive calls of \<^verbatim>\<open>update\<close> on one state; the first undefined step ends the run.\<close>

fun ticks :: "(int \<Rightarrow> LogSign) \<Rightarrow> OperatorState \<Rightarrow> Tick list \<Rightarrow> error + OperatorState" where
  "ticks negative_log_sin state [] = Inr state"
| "ticks negative_log_sin state (t # ts) =
     (case update negative_log_sin (tick_operator t) state (tick_key_on t) (tick_period t)
             (tick_octave t) (tick_phase_offset t) (tick_overrides t) of
        Inl e \<Rightarrow> Inl e
      | Inr state' \<Rightarrow> ticks negative_log_sin state' ts)"

text \<open>
  The values the register decoders can leave in an operator: rates are a nibble times four,
  the sustain level and the frequency multiple a nibble, the attenuation six bits.
\<close>

definition decodable_rate :: "int \<Rightarrow> bool" where
  "decodable_rate r = (0 \<le> r \<and> r \<le> 60 \<and> r mod 4 = 0)"

definition decodable :: "Operator \<Rightarrow> bool" where
  "decodable opr =
     (decodable_rate (attack_rate opr) \<and> decodable_rate (decay_rate opr) \<and>
      decodable_rate (release_rate opr) \<and>
      0 \<le> sustain_level opr \<and> sustain_level opr \<le> 15 \<and>
      0 \<le> op_attenuation opr \<and> op_attenuation opr \<le> 63 \<and>
      0 \<le> level_key_scaling opr \<and> level_key_scaling opr \<le> 3 \<and>
      0 \<le> frequency_multiple opr \<and> frequency_multiple opr \<le> 15)"

text \<open>The phase in which the envelope step of a call runs: the one left by the key-on logic.\<close>

definition tick_phase :: "OperatorState \<Rightarrow> bool \<Rightarrow> ADSRPhase" where
  "tick_phase state key_on = adsr_phase (key_on_logic state key_on)"

text \<open>
  The one decodable situation in which the Decay/Release branch shifts by a negative count:
  the governing rate is 12 (nibble 3).
\<close>

definition negative_shift_tick :: "Operator \<Rightarrow> OperatorState \<Rightarrow> bool \<Rightarrow> bool" where
  "negative_shift_tick opr state key_on =
     ((tick_phase state key_on = Decay \<and> decay_rate opr = 12) \<or>
      (tick_phase state key_on = Release \<and> release_rate opr = 12))"

subsection \<open>Concrete voices for evaluation\<close>

definition sample_log_sin :: "int \<Rightarrow> LogSign" where
  "sample_log_sin p = \<lparr>logsin = p, sign = 1\<rparr>"

definition blank_operator :: Operator where
  "blank_operator =
     \<lparr>attack_rate = 0, decay_rate = 0, sustain_level = 0, release_rate = 0,
      level_key_scaling = 0, op_attenuation = 0, waveform = Sine,
      apply_amplitude_modulation = False, apply_vibrato = False, use_sustain_level = False,
      key_scaling_rate = False, frequency_multiple = 0\<rparr>"

definition resting_state :: OperatorState where
  "resting_state =
     \<lparr>attenuation = \<lparr>logsin = 0, sign = 1\<rparr>, raw_phase = 0, adsr_phase = Release,
      time_in_phase = 0, adsr_attenuation = 511, last_key_on = False\<rparr>"

definition key_tick :: "Operator \<Rightarrow> bool \<Rightarrow> Tick" where
  "key_tick opr key_on =
     \<lparr>tick_operator = opr, tick_key_on = key_on, tick_period = 100, tick_octave = 3,
      tick_phase_offset = 0, tick_overrides = None\<rparr>"

definition attacking_state :: OperatorState where
  "attacking_state =
     \<lparr>attenuation = \<lparr>logsin = 3576, sign = 1\<rparr>, raw_phase = 800, adsr_phase = Attack,
      time_in_phase = 1, adsr_attenuation = 447, last_key_on = True\<rparr>"

text \<open>A voice with the fastest decodable attack, a decay of four per tick and sustain level 15.\<close>

definition plucked_operator :: Operator where
  "plucked_operator = set_sustain_release 0xf0 (set_attack_decay 0xf1 blank_operator)"

text \<open>The same voice 29 ticks after its key went down: ten ticks into the decay.\<close>

definition decaying_state :: OperatorState where
  "decaying_state =
     \<lparr>attenuation = \<lparr>logsin = 325, sign = 1\<rparr>, raw_phase = 23200, adsr_phase = Decay,
      time_in_phase = 10, adsr_attenuation = 40, last_key_on = True\<rparr>"

text \<open>A voice that holds at sustain level 0 and neither decays nor releases.\<close>

definition organ_operator :: Operator where
  "organ_operator =
     set_am_vibrato_hold_sustain_ksr_multiple 0x20
       (set_sustain_release 0x00 (set_attack_decay 0xf0 blank_operator))"

text \<open>That voice after 20 ticks with the key down and one tick with the key up.\<close>

definition open_released_state :: OperatorState where
  "open_released_state =
     \<lparr>attenuation = \<lparr>logsin = 4, sign = 1\<rparr>, raw_phase = 16800, adsr_phase = Release,
      time_in_phase = 1, adsr_attenuation = 0, last_key_on = False\<rparr>"

text \<open>A run of key-on levels without a leading edge, given the level before it.\<close>

fun no_rising_edge :: "bool \<Rightarrow> bool list \<Rightarrow> bool" where
  "no_rising_edge previous [] = True"
| "no_rising_edge previous (k # ks) = ((previous \<or> \<not> k) \<and> no_rising_edge k ks)"

text \<open>A tick whose multiplier index and octave shift are within range.\<close>

definition tick_in_range :: "Tick \<Rightarrow> bool" where
  "tick_in_range t =
     (0 \<le> frequency_multiple (tick_operator t) \<and> frequency_multiple (tick_operator t) < 16 \<and>
      0 \<le> tick_octave t \<and> tick_octave t < 32)"

section \<open>The OPLL front-end\<close>

text \<open>
  An OPLL channel extends \<^verbatim>\<open>Yamaha::OPL::Channel\<close>, whose declaration (Channel.hpp) is not
  part of the sources: its state is the type parameter \<open>'ch\<close>, and its two setters
  used by the register decoder are parameters of \<open>write_register\<close>. The pointer
  \<^verbatim>\<open>modulator\<close> into \<^verbatim>\<open>operators_\<close> is the index of the operator it points to.
  The chip record holds the members that the constructor and the register decoder touch,
  among them the six \<^verbatim>\<open>rhythm_overrides_\<close> that \<^verbatim>\<open>write_register\<close> fills; the
  oscillator, the output levels and the volume, which only the sample generation uses, are
  left out.
\<close>

record 'ch OPLL_Channel =
  channel_base :: 'ch
  channel_modulator :: nat
  channel_overrides :: OperatorOverrides
  channel_level :: int

record 'ch OPLL =
  operators :: "Operator list"
  channels :: "'ch OPLL_Channel list"
  custom_instrument :: "8 word list"
  rhythm_overrides :: "OperatorOverrides list"
  depth_rhythm_control :: "8 word"
  csm_keyboard_split :: "8 word"
  waveform_enable :: bool
  selected_register :: "8 word"
  audio_divider :: int
  audio_offset :: int

text \<open>
  \<^verbatim>\<open>OPLL::setup_fixed_instrument\<close>. The eight bytes behind the pointer \<^verbatim>\<open>data\<close> are a
  function from offsets to bytes; \<open>number\<close> is the instrument, whose operators are the
  slots \<open>2 * number\<close> and \<open>2 * number + 1\<close>.
\<close>

definition setup_fixed_instrument :: "nat \<Rightarrow> (nat \<Rightarrow> 8 word) \<Rightarrow> 'ch OPLL \<Rightarrow> 'ch OPLL" where
  "setup_fixed_instrument number data s =
     (let modulator = operators s ! (number * 2);
          carrier = operators s ! (number * 2 + 1);
          modulator = set_am_vibrato_hold_sustain_ksr_multiple (data 0) modulator;
          carrier = set_am_vibrato_hold_sustain_ksr_multiple (data 1) carrier;
          modulator = set_scaling_output (data 2) modulator;
          modulator = set_waveform (drop_bit 3 (data 3) AND 1) modulator;
          carrier = set_waveform (drop_bit 4 (data 3) AND 1) carrier;
          modulator = set_attack_decay (data 4) modulator;
          carrier = set_attack_decay (data 5) carrier;
          modulator = set_sustain_release (data 6) modulator;
          carrier = set_sustain_release (data 7) carrier
      in s\<lparr>operators := (operators s)[number * 2 := modulator, number * 2 + 1 := carrier]\<rparr>)"

text \<open>
  \<^verbatim>\<open>OPLL::write_register\<close>: the body of the task that the call hands to the deferring queue,
  as a change of the chip's state. The queue itself is outside the sources; it runs the task
  later, on the audio side.
\<close>

definition write_register ::
  "(8 word \<Rightarrow> 'ch \<Rightarrow> 'ch) \<Rightarrow> (8 word \<Rightarrow> 'ch \<Rightarrow> 'ch) \<Rightarrow> 8 word \<Rightarrow> 8 word \<Rightarrow> 'ch OPLL \<Rightarrow> 'ch OPLL"
  where
  "write_register set_frequency_low set_9bit_frequency_octave_key_on address val s =
     (if address < 8 then
        (let s1 = s\<lparr>custom_instrument := (custom_instrument s)[unat address := val]\<rparr>
         in setup_fixed_instrument 0 (\<lambda>k. custom_instrument s1 ! k) s1)
      else if address = 0xe then s\<lparr>depth_rhythm_control := val AND 0x3f\<rparr>
      else
        (let index = unat (address AND 0xf) in
         if index > 8 then s
         else if address AND 0xf0 = 0x30 then
           (let ch = channels s ! index;
                ch = ch\<lparr>channel_overrides :=
                        (channel_overrides ch)\<lparr>ov_attenuation := uint (val AND 0xf)\<rparr>,
                      channel_modulator := unat (drop_bit 4 val) * 2\<rparr>;
                s1 = s\<lparr>channels := (channels s)[index := ch]\<rparr>
            in if index \<ge> 6 then
                 s1\<lparr>rhythm_overrides :=
                      (let ro = rhythm_overrides s1;
                           ro = ro[(index - 6) * 2 :=
                                   (ro ! ((index - 6) * 2))\<lparr>ov_attenuation := uint (drop_bit 4 val)\<rparr>]
                       in ro[(index - 6) * 2 + 1 :=
                               (ro ! ((index - 6) * 2 + 1))\<lparr>ov_attenuation := uint (val AND 0xf)\<rparr>])\<rparr>
               else s1)
         else if address AND 0xf0 = 0x10 then
           s\<lparr>channels := (channels s)[index :=
               (channels s ! index)\<lparr>channel_base :=
                  set_frequency_low val (channel_base (channels s ! index))\<rparr>]\<rparr>
         else if address AND 0xf0 = 0x20 then
           (let ch = channels s ! index;
                ch = ch\<lparr>channel_base := set_9bit_frequency_octave_key_on val (channel_base ch)\<rparr>;
                ch = ch\<lparr>channel_overrides :=
                        (channel_overrides ch)\<lparr>ov_use_sustain_level := (val AND 0x20 \<noteq> 0)\<rparr>\<rparr>
            in s\<lparr>channels := (channels s)[index := ch]\<rparr>)
         else s))"

text \<open>
  The constructor \<^verbatim>\<open>OPLL::OPLL\<close>. \<open>fresh\<close> is the object as the default member
  initialisers leave it; the three patch tables, which the sources do not contain,
  are functions from offsets to bytes. A failing \<^verbatim>\<open>assert\<close> ends the construction.
\<close>

definition OPLL_construct ::
  "'ch OPLL \<Rightarrow> (nat \<Rightarrow> 8 word) \<Rightarrow> (nat \<Rightarrow> 8 word) \<Rightarrow> (nat \<Rightarrow> 8 word) \<Rightarrow> int \<Rightarrow> bool \<Rightarrow>
     error + 'ch OPLL" where
  "OPLL_construct fresh opll_patch_set vrc7_patch_set percussion_patch_set divider is_vrc7 =
     (let s = fresh\<lparr>audio_divider := divider\<rparr> in
      if \<not> divider \<le> 4 then Inl AssertionFailed
      else
        (let patch_set = (if is_vrc7 then vrc7_patch_set else opll_patch_set);
             s = fold (\<lambda>c. setup_fixed_instrument (c + 1) (\<lambda>k. patch_set (8 * c + k)))
                   [0..<15] s;
             s = fold (\<lambda>c. setup_fixed_instrument (c + 16) (\<lambda>k. percussion_patch_set (c * 8 + k)))
                   [0..<3] s;
             s = fold (\<lambda>c s. s\<lparr>channels :=
                         (channels s)[c := (channels s ! c)\<lparr>channel_modulator := 0\<rparr>]\<rparr>)
                   [0..<9] s
         in Inr s))"

text \<open>A chip with blank operators and channels, for evaluation.\<close>

definition blank_chip :: "unit OPLL" where
  "blank_chip =
     \<lparr>operators = replicate 38 blank_operator,
      channels = replicate 9
        \<lparr>channel_base = (), channel_modulator = 0,
         channel_overrides = \<lparr>ov_attenuation = 0, ov_use_sustain_level = False\<rparr>,
         channel_level = 0\<rparr>,
      custom_instrument = replicate 8 0,
      rhythm_overrides = replicate 6 \<lparr>ov_attenuation = 0, ov_use_sustain_level = False\<rparr>,
      depth_rhythm_control = 0, csm_keyboard_split = 0, waveform_enable = False,
      selected_register = 0, audio_divider = 1, audio_offset = 0\<rparr>"

section \<open>Lemmas about one tick\<close>

lemma key_on_logic_frame:
  "key_on_logic (state\<lparr>raw_phase := r, attenuation := l\<rparr>) k =
     (key_on_logic state k)\<lparr>raw_phase := r, attenuation := l\<rparr>"
  by (simp add: key_on_logic_def)

lemma attack_attenuation_frame:
  "attack_attenuation opr (state\<lparr>raw_phase := r, attenuation := l\<rparr>) =
     attack_attenuation opr state"
  by (simp add: attack_attenuation_def cong: if_cong sum.case_cong)

lemma decrease_attenuation_frame:
  "decrease_attenuation opr (state\<lparr>raw_phase := r, attenuation := l\<rparr>) =
     decrease_attenuation opr state"
  by (simp add: decrease_attenuation_def decrease_rate_def Let_def cong: if_cong sum.case_cong)

lemma attack_step_frame:
  "attack_step opr (state\<lparr>raw_phase := r, attenuation := l\<rparr>) =
     map_sum id (\<lambda>t. t\<lparr>raw_phase := r, attenuation := l\<rparr>) (attack_step opr state)"
  by (cases "attack_attenuation opr state")
     (simp_all add: attack_step_def attack_attenuation_frame)

lemma decay_release_step_frame:
  "decay_release_step opr (state\<lparr>raw_phase := r, attenuation := l\<rparr>) ov =
     map_sum id (\<lambda>t. t\<lparr>raw_phase := r, attenuation := l\<rparr>) (decay_release_step opr state ov)"
  by (cases "decrease_attenuation opr state")
     (simp_all add: decay_release_step_def decrease_attenuation_frame Let_def)

lemma adsr_step_frame:
  "adsr_step opr (state\<lparr>raw_phase := r, attenuation := l\<rparr>) ov =
     map_sum id (\<lambda>t. t\<lparr>raw_phase := r, attenuation := l\<rparr>) (adsr_step opr state ov)"
  by (cases "adsr_phase state")
     (simp_all add: adsr_step_def attack_step_frame decay_release_step_frame)

lemma update_raw_phase_Inr:
  "update_raw_phase opr state p oc = Inr s1 \<Longrightarrow>
     s1 = state\<lparr>raw_phase := raw_phase state + phase_increment (frequency_multiple opr) p oc\<rparr>"
  by (simp add: update_raw_phase_def split: if_splits)

lemma update_Inr_cases:
  assumes "update nls opr state k p oc off ov = Inr state'"
  obtains s1 s4 where
    "update_raw_phase opr state p oc = Inr s1"
    "adsr_step opr (key_on_logic (update_waveform nls opr s1 off) k) ov = Inr s4"
    "state' = combine_attenuation opr
           (count_tick (adsr_phase (key_on_logic (update_waveform nls opr s1 off) k)) s4) ov"
proof (cases "update_raw_phase opr state p oc")
  case (Inl e)
  with assms show ?thesis by (simp add: update_def)
next
  case (Inr s1)
  show ?thesis
  proof (cases "adsr_step opr (key_on_logic (update_waveform nls opr s1 off) k) ov")
    case (Inl e)
    with Inr assms show ?thesis by (simp add: update_def Let_def)
  next
    case s4: (Inr s4)
    with Inr assms that show ?thesis by (simp add: update_def Let_def)
  qed
qed

lemma update_envelope:
  assumes "update nls opr state k p oc off ov = Inr state'"
  shows "\<exists>s4. adsr_step opr (key_on_logic state k) ov = Inr s4 \<and>
           adsr_attenuation state' = adsr_attenuation s4 \<and>
           adsr_phase state' = adsr_phase s4 \<and>
           time_in_phase state' =
             (if adsr_phase s4 = tick_phase state k then time_in_phase s4 + 1 else 0) \<and>
           last_key_on state' = last_key_on s4"
proof -
  from assms obtain s1 s4 where
    s1: "update_raw_phase opr state p oc = Inr s1" and
    s4: "adsr_step opr (key_on_logic (update_waveform nls opr s1 off) k) ov = Inr s4" and
    st: "state' = combine_attenuation opr
           (count_tick (adsr_phase (key_on_logic (update_waveform nls opr s1 off) k)) s4) ov"
    by (rule update_Inr_cases)
  define r where "r = raw_phase state + phase_increment (frequency_multiple opr) p oc"
  define l where "l = nls (masked_phase opr s1 off)"
  have w: "update_waveform nls opr s1 off = state\<lparr>raw_phase := r, attenuation := l\<rparr>"
    using update_raw_phase_Inr [OF s1] by (simp add: update_waveform_def r_def l_def)
  have ph: "adsr_phase (key_on_logic (update_waveform nls opr s1 off) k) = tick_phase state k"
    by (simp add: w key_on_logic_frame tick_phase_def)
  from s4 obtain t where
    t: "adsr_step opr (key_on_logic state k) ov = Inr t" and
    s4t: "s4 = t\<lparr>raw_phase := r, attenuation := l\<rparr>"
    by (cases "adsr_step opr (key_on_logic state k) ov")
       (simp_all add: w key_on_logic_frame adsr_step_frame)
  have "adsr_attenuation state' = adsr_attenuation t" "adsr_phase state' = adsr_phase t"
    "last_key_on state' = last_key_on t"
    "time_in_phase state' = (if adsr_phase t = tick_phase state k then time_in_phase t + 1 else 0)"
    by (simp_all add: st ph s4t combine_attenuation_def count_tick_def)
  with t show ?thesis by blast
qed


lemma key_on_logic_attenuation [simp]:
  "adsr_attenuation (key_on_logic state k) = adsr_attenuation state"
  by (simp add: key_on_logic_def)

lemma key_on_logic_last [simp]: "last_key_on (key_on_logic state k) = k"
  by (simp add: key_on_logic_def)

lemma shift_left_one_Inr:
  "shift_left_one n = Inr x \<longleftrightarrow> 0 \<le> n \<and> n < 31 \<and> x = 2 ^ nat n"
  by (auto simp: shift_left_one_def)

lemma attack_attenuation_bounds:
  assumes "attack_attenuation opr s = Inr a" "0 \<le> adsr_attenuation s"
  shows "- 1 \<le> a" "a \<le> adsr_attenuation s"
proof -
  let ?x = "adsr_attenuation s"
  from assms(2) have f: "- 1 \<le> ?x - ?x div 4 - 1" "?x - ?x div 4 - 1 \<le> ?x"
    "- 1 \<le> ?x - ?x div 8 - 1" "?x - ?x div 8 - 1 \<le> ?x"
    by presburger+
  from assms(1) have "a = ?x - ?x div 4 - 1 \<or> a = ?x - ?x div 8 - 1 \<or> a = ?x"
    by (auto simp: attack_attenuation_def drop_bit_eq_div split: if_splits sum.splits)
  with f assms(2) show "- 1 \<le> a" "a \<le> adsr_attenuation s" by auto
qed

lemma attack_step_Inr:
  assumes "attack_step opr s = Inr s'"
  obtains a where "attack_attenuation opr s = Inr a"
    "s' = (if attack_rate opr > 60 \<or> a \<le> 0
           then s\<lparr>adsr_attenuation := 0, adsr_phase := Decay\<rparr>
           else s\<lparr>adsr_attenuation := a\<rparr>)"
  using assms by (cases "attack_attenuation opr s") (simp_all add: attack_step_def)

lemma decrease_attenuation_bounds:
  assumes "decrease_attenuation opr s = Inr a"
  shows "adsr_attenuation s \<le> a" "a \<le> adsr_attenuation s + 4"
  using assms
  by (auto simp: decrease_attenuation_def Let_def split: if_splits sum.splits)

lemma decay_release_step_Inr:
  assumes "decay_release_step opr s ov = Inr s'"
  obtains a where "decrease_attenuation opr s = Inr a"
    "s' = (if adsr_phase s = Decay \<and> min a 511 \<ge> push_bit 5 (sustain_level opr)
           then s\<lparr>adsr_attenuation := push_bit 5 (sustain_level opr),
                  adsr_phase :=
                    (if (case ov of Some v \<Rightarrow> ov_use_sustain_level v | None \<Rightarrow> False)
                        \<or> use_sustain_level opr
                     then Sustain else Release)\<rparr>
           else s\<lparr>adsr_attenuation := min a 511\<rparr>)"
  using assms
  by (cases "decrease_attenuation opr s") (simp_all add: decay_release_step_def Let_def)

lemma adsr_step_range:
  assumes step: "adsr_step opr s ov = Inr s'"
    and lo: "0 \<le> adsr_attenuation s" and hi: "adsr_attenuation s \<le> 511"
    and sl: "0 \<le> sustain_level opr" "sustain_level opr \<le> 15"
  shows "0 \<le> adsr_attenuation s' \<and> adsr_attenuation s' \<le> 511"
proof (cases "adsr_phase s")
  case Attack
  with step have "attack_step opr s = Inr s'" by (simp add: adsr_step_def)
  then obtain a where a: "attack_attenuation opr s = Inr a"
    and s': "s' = (if attack_rate opr > 60 \<or> a \<le> 0
           then s\<lparr>adsr_attenuation := 0, adsr_phase := Decay\<rparr>
           else s\<lparr>adsr_attenuation := a\<rparr>)"
    by (rule attack_step_Inr)
  from attack_attenuation_bounds [OF a lo] hi s' show ?thesis by auto
next
  case Sustain
  with step lo hi show ?thesis by (simp add: adsr_step_def)
next
  case other: Decay
  with step have "decay_release_step opr s ov = Inr s'" by (simp add: adsr_step_def)
  then obtain a where a: "decrease_attenuation opr s = Inr a"
    and s': "s' = (if adsr_phase s = Decay \<and> min a 511 \<ge> push_bit 5 (sustain_level opr)
           then s\<lparr>adsr_attenuation := push_bit 5 (sustain_level opr),
                  adsr_phase :=
                    (if (case ov of Some v \<Rightarrow> ov_use_sustain_level v | None \<Rightarrow> False)
                        \<or> use_sustain_level opr
                     then Sustain else Release)\<rparr>
           else s\<lparr>adsr_attenuation := min a 511\<rparr>)"
    by (rule decay_release_step_Inr)
  from sl have "0 \<le> push_bit 5 (sustain_level opr)" "push_bit 5 (sustain_level opr) \<le> 511"
    by (simp_all add: push_bit_eq_mult)
  with decrease_attenuation_bounds [OF a] lo s' show ?thesis by auto
next
  case other: Release
  with step have "decay_release_step opr s ov = Inr s'" by (simp add: adsr_step_def)
  then obtain a where a: "decrease_attenuation opr s = Inr a"
    and s': "s' = (if adsr_phase s = Decay \<and> min a 511 \<ge> push_bit 5 (sustain_level opr)
           then s\<lparr>adsr_attenuation := push_bit 5 (sustain_level opr),
                  adsr_phase :=
                    (if (case ov of Some v \<Rightarrow> ov_use_sustain_level v | None \<Rightarrow> False)
                        \<or> use_sustain_level opr
                     then Sustain else Release)\<rparr>
           else s\<lparr>adsr_attenuation := min a 511\<rparr>)"
    by (rule decay_release_step_Inr)
  with decrease_attenuation_bounds [OF a] lo other show ?thesis by auto
qed

lemma decodable_rate_cases:
  assumes "decodable_rate r" "r \<noteq> 12"
  shows "r = 0 \<or> drop_bit 2 r = 1 \<or> drop_bit 2 r = 2 \<or> (4 \<le> drop_bit 2 r \<and> drop_bit 2 r \<le> 15)"
  using assms unfolding decodable_rate_def drop_bit_eq_div by (simp, presburger)

lemma decrease_attenuation_defined:
  assumes "decodable_rate (decrease_rate opr s)" "decrease_rate opr s \<noteq> 12"
  shows "\<exists>a. decrease_attenuation opr s = Inr a"
  using decodable_rate_cases [OF assms]
  by (auto simp: decrease_attenuation_def Let_def decrease_shift_def shift_left_one_def)

lemma attack_attenuation_defined:
  assumes "decodable_rate (attack_rate opr)"
  shows "\<exists>a. attack_attenuation opr s = Inr a"
proof -
  from assms have "56 \<le> attack_rate opr \<or> (0 \<le> 14 - drop_bit 2 (attack_rate opr) \<and> 
     14 - drop_bit 2 (attack_rate opr) < 31)"
    unfolding decodable_rate_def drop_bit_eq_div by (simp, presburger)
  then show ?thesis
    by (auto simp: attack_attenuation_def shift_left_one_def)
qed

lemma adsr_step_defined:
  assumes "decodable opr"
    and "\<not> (adsr_phase s = Decay \<and> decay_rate opr = 12)"
    and "\<not> (adsr_phase s = Release \<and> release_rate opr = 12)"
  shows "\<exists>s'. adsr_step opr s ov = Inr s'"
proof (cases "adsr_phase s")
  case Attack
  from assms(1) have "decodable_rate (attack_rate opr)" by (simp add: decodable_def)
  from attack_attenuation_defined [OF this, of s] Attack show ?thesis
    by (auto simp: adsr_step_def attack_step_def)
next
  case Sustain
  then show ?thesis by (simp add: adsr_step_def)
next
  case Decay
  with assms have "decodable_rate (decrease_rate opr s)" "decrease_rate opr s \<noteq> 12"
    by (simp_all add: decodable_def decrease_rate_def)
  from decrease_attenuation_defined [OF this] Decay show ?thesis
    by (auto simp: adsr_step_def decay_release_step_def Let_def)
next
  case Release
  with assms have "decodable_rate (decrease_rate opr s)" "decrease_rate opr s \<noteq> 12"
    by (simp_all add: decodable_def decrease_rate_def)
  from decrease_attenuation_defined [OF this] Release show ?thesis
    by (auto simp: adsr_step_def decay_release_step_def Let_def)
qed

lemma update_defined:
  assumes dec: "decodable opr" and oc: "0 \<le> oc" "oc < 32"
    and nn: "\<not> negative_shift_tick opr state k"
  shows "\<exists>state'. update nls opr state k p oc off ov = Inr state'"
proof -
  define s1 where
    "s1 = state\<lparr>raw_phase := raw_phase state + phase_increment (frequency_multiple opr) p oc\<rparr>"
  from dec oc have r: "update_raw_phase opr state p oc = Inr s1"
    by (simp add: update_raw_phase_def decodable_def s1_def)
  define s3 where "s3 = key_on_logic (update_waveform nls opr s1 off) k"
  have "adsr_phase s3 = tick_phase state k"
    by (simp add: s3_def s1_def update_waveform_def key_on_logic_frame tick_phase_def)
  with nn have "\<not> (adsr_phase s3 = Decay \<and> decay_rate opr = 12)"
    "\<not> (adsr_phase s3 = Release \<and> release_rate opr = 12)"
    by (auto simp: negative_shift_tick_def)
  from adsr_step_defined [OF dec this] obtain s4 where "adsr_step opr s3 ov = Inr s4" ..
  with r show ?thesis by (simp add: update_def Let_def s3_def)
qed



lemma update_Inl_cases:
  assumes "update nls opr state k p oc off ov = Inl e"
    and dec: "decodable opr" and oc: "0 \<le> oc" "oc < 32"
  shows "e = UndefinedShift \<and> negative_shift_tick opr state k"
proof -
  have nst: "negative_shift_tick opr state k"
  proof (rule ccontr)
    assume "\<not> negative_shift_tick opr state k"
    from update_defined [OF dec oc this, of nls p off ov] assms(1) show False by auto
  qed
  define s1 where
    "s1 = state\<lparr>raw_phase := raw_phase state + phase_increment (frequency_multiple opr) p oc\<rparr>"
  from dec oc have r: "update_raw_phase opr state p oc = Inr s1"
    by (simp add: update_raw_phase_def decodable_def s1_def)
  define s3 where "s3 = key_on_logic (update_waveform nls opr s1 off) k"
  from assms(1) r have e: "adsr_step opr s3 ov = Inl e"
    by (cases "adsr_step opr s3 ov") (simp_all add: update_def Let_def s3_def)
  have sh: "shift_left_one n = Inl e' \<Longrightarrow> e' = UndefinedShift" for n e'
    by (simp add: shift_left_one_def split: if_splits)
  have aa: "attack_attenuation opr s3 = Inl e' \<Longrightarrow> e' = UndefinedShift" for e'
    by (auto simp: attack_attenuation_def split: if_splits sum.splits dest: sh)
  have da: "decrease_attenuation opr s3 = Inl e' \<Longrightarrow> e' = UndefinedShift" for e'
    by (auto simp: decrease_attenuation_def Let_def split: if_splits sum.splits dest: sh)
  from e have "e = UndefinedShift"
    by (cases "adsr_phase s3")
       (auto simp: adsr_step_def attack_step_def decay_release_step_def Let_def
          split: sum.splits dest: aa da)
  with nst show ?thesis by simp
qed

lemma adsr_step_fields:
  assumes "adsr_step opr s ov = Inr s'"
  shows "attenuation s' = attenuation s" "raw_phase s' = raw_phase s"
    "time_in_phase s' = time_in_phase s" "last_key_on s' = last_key_on s"
proof -
  have "attenuation s' = attenuation s \<and> raw_phase s' = raw_phase s \<and>
    time_in_phase s' = time_in_phase s \<and> last_key_on s' = last_key_on s"
  proof (cases "adsr_phase s")
    case Attack
    with assms have "attack_step opr s = Inr s'" by (simp add: adsr_step_def)
    then show ?thesis by (rule attack_step_Inr) simp
  next
    case Sustain
    with assms show ?thesis by (simp add: adsr_step_def)
  next
    case Decay
    with assms have "decay_release_step opr s ov = Inr s'" by (simp add: adsr_step_def)
    then show ?thesis by (rule decay_release_step_Inr) simp
  next
    case Release
    with assms have "decay_release_step opr s ov = Inr s'" by (simp add: adsr_step_def)
    then show ?thesis by (rule decay_release_step_Inr) simp
  qed
  then show "attenuation s' = attenuation s" "raw_phase s' = raw_phase s"
    "time_in_phase s' = time_in_phase s" "last_key_on s' = last_key_on s" by simp_all
qed

lemma mask_test_eq_mod:
  "(t AND (2 ^ n - 1) = 0) = (t mod 2 ^ n = 0)" for t :: int
  by (simp flip: mask_eq_exp_minus_1 take_bit_eq_mask add: take_bit_eq_mod)

lemma attack_attenuation_value:
  assumes "attack_attenuation opr s = Inr a"
  shows "a = (if 56 \<le> attack_rate opr
              then adsr_attenuation s - adsr_attenuation s div 4 - 1
              else if time_in_phase s mod 2 ^ nat (14 - attack_rate opr div 4) = 0
              then adsr_attenuation s - adsr_attenuation s div 8 - 1
              else adsr_attenuation s)"
  using assms
  by (auto simp: attack_attenuation_def drop_bit_eq_div shift_left_one_Inr mask_test_eq_mod
      split: if_splits sum.splits)

lemma update_from_adsr_step:
  assumes fm: "0 \<le> frequency_multiple opr" "frequency_multiple opr < 16"
    and oc: "0 \<le> oc" "oc < 32"
    and t: "adsr_step opr (key_on_logic state k) ov = Inr t"
  shows "\<exists>state'. update nls opr state k p oc off ov = Inr state' \<and>
           adsr_attenuation state' = adsr_attenuation t \<and>
           adsr_phase state' = adsr_phase t \<and> last_key_on state' = k"
proof -
  define r where "r = raw_phase state + phase_increment (frequency_multiple opr) p oc"
  define s1 where "s1 = state\<lparr>raw_phase := r\<rparr>"
  define l where "l = nls (masked_phase opr s1 off)"
  from fm oc have r: "update_raw_phase opr state p oc = Inr s1"
    by (simp add: update_raw_phase_def s1_def r_def)
  have w: "key_on_logic (update_waveform nls opr s1 off) k =
      (key_on_logic state k)\<lparr>raw_phase := r, attenuation := l\<rparr>"
    by (simp add: update_waveform_def s1_def l_def key_on_logic_frame)
  have s4: "adsr_step opr (key_on_logic (update_waveform nls opr s1 off) k) ov =
      Inr (t\<lparr>raw_phase := r, attenuation := l\<rparr>)"
    by (simp add: w adsr_step_frame t)
  have lk: "last_key_on t = k"
    using adsr_step_fields(4) [OF t] by simp
  from r s4 lk show ?thesis
    by (simp add: update_def Let_def combine_attenuation_def count_tick_def)
qed

lemma decrease_attenuation_rate0:
  "decrease_rate opr s = 0 \<Longrightarrow> decrease_attenuation opr s = Inr (adsr_attenuation s)"
  by (simp add: decrease_attenuation_def)

lemma release_tick_rate0:
  assumes ph: "tick_phase state k = Release" and rate: "release_rate opr = 0"
    and hi: "adsr_attenuation state \<le> 511"
    and fm: "0 \<le> frequency_multiple opr" "frequency_multiple opr < 16"
    and oc: "0 \<le> oc" "oc < 32"
  shows "\<exists>state'. update nls opr state k p oc off ov = Inr state' \<and>
           adsr_attenuation state' = adsr_attenuation state \<and>
           adsr_phase state' = Release \<and> last_key_on state' = k"
proof -
  let ?s3 = "key_on_logic state k"
  from ph have p3: "adsr_phase ?s3 = Release" by (simp add: tick_phase_def)
  with rate have "decrease_attenuation opr ?s3 = Inr (adsr_attenuation state)"
    by (simp add: decrease_attenuation_rate0 decrease_rate_def)
  with p3 hi have "adsr_step opr ?s3 ov = Inr (?s3\<lparr>adsr_attenuation := adsr_attenuation state\<rparr>)"
    by (simp add: adsr_step_def decay_release_step_def)
  from update_from_adsr_step [OF fm oc this, of nls p off] p3 show ?thesis by simp
qed

lemma decay_tick_rate0:
  assumes ph: "tick_phase state k = Decay" and rate: "decay_rate opr = 0"
    and below: "adsr_attenuation state < push_bit 5 (sustain_level opr)"
    and hi: "adsr_attenuation state \<le> 511"
    and fm: "0 \<le> frequency_multiple opr" "frequency_multiple opr < 16"
    and oc: "0 \<le> oc" "oc < 32"
  shows "\<exists>state'. update nls opr state k p oc off ov = Inr state' \<and>
           adsr_attenuation state' = adsr_attenuation state \<and>
           adsr_phase state' = Decay \<and> last_key_on state' = k"
proof -
  let ?s3 = "key_on_logic state k"
  from ph have p3: "adsr_phase ?s3 = Decay" by (simp add: tick_phase_def)
  with rate have "decrease_attenuation opr ?s3 = Inr (adsr_attenuation state)"
    by (simp add: decrease_attenuation_rate0 decrease_rate_def)
  with p3 below hi have "adsr_step opr ?s3 ov =
      Inr (?s3\<lparr>adsr_attenuation := adsr_attenuation state\<rparr>)"
    by (simp add: adsr_step_def decay_release_step_def)
  from update_from_adsr_step [OF fm oc this, of nls p off] p3 show ?thesis by simp
qed

lemma tick_phase_no_edge:
  "previous \<or> \<not> k \<Longrightarrow> last_key_on state = previous \<Longrightarrow> adsr_phase state = Release \<Longrightarrow>
     tick_phase state k = Release"
  by (auto simp: tick_phase_def key_on_logic_def)

lemma tick_phase_held:
  "k \<Longrightarrow> last_key_on state \<Longrightarrow> tick_phase state k = adsr_phase state"
  by (simp add: tick_phase_def key_on_logic_def)

lemma release_run_rate0:
  assumes "adsr_phase state = Release" "adsr_attenuation state \<le> 511"
    "no_rising_edge (last_key_on state) (map tick_key_on ts)"
    "\<forall>t\<in>set ts. release_rate (tick_operator t) = 0 \<and> tick_in_range t"
  shows "\<exists>state'. ticks nls state ts = Inr state' \<and>
           adsr_attenuation state' = adsr_attenuation state \<and> adsr_phase state' = Release"
  using assms
proof (induction ts arbitrary: state)
  case Nil
  then show ?case by simp
next
  case (Cons t ts)
  from Cons.prems(3) have edge: "last_key_on state \<or> \<not> tick_key_on t"
    and rest: "no_rising_edge (tick_key_on t) (map tick_key_on ts)" by simp_all
  from Cons.prems(4) have t: "release_rate (tick_operator t) = 0"
    "0 \<le> frequency_multiple (tick_operator t)" "frequency_multiple (tick_operator t) < 16"
    "0 \<le> tick_octave t" "tick_octave t < 32"
    by (simp_all add: tick_in_range_def)
  have ph: "tick_phase state (tick_key_on t) = Release"
    using edge Cons.prems(1) by (rule tick_phase_no_edge [OF _ refl])
  from release_tick_rate0 [OF ph t(1) Cons.prems(2) t(2-5)]
  obtain s' where s': "update nls (tick_operator t) state (tick_key_on t) (tick_period t)
      (tick_octave t) (tick_phase_offset t) (tick_overrides t) = Inr s'"
    "adsr_attenuation s' = adsr_attenuation state" "adsr_phase s' = Release"
    "last_key_on s' = tick_key_on t" by blast
  from Cons.prems(4) have "\<forall>t\<in>set ts. release_rate (tick_operator t) = 0 \<and> tick_in_range t"
    by simp
  from Cons.IH [OF s'(3) _ _ this] s'(2,4) Cons.prems(2) rest
  obtain s'' where "ticks nls s' ts = Inr s''" "adsr_attenuation s'' = adsr_attenuation s'"
    "adsr_phase s'' = Release" by auto
  with s' show ?case by simp
qed

lemma decay_run_rate0:
  assumes "adsr_phase state = Decay" "last_key_on state" "adsr_attenuation state \<le> 511"
    "\<forall>t\<in>set ts. tick_key_on t \<and> decay_rate (tick_operator t) = 0 \<and>
        adsr_attenuation state < push_bit 5 (sustain_level (tick_operator t)) \<and> tick_in_range t"
  shows "\<exists>state'. ticks nls state ts = Inr state' \<and>
           adsr_attenuation state' = adsr_attenuation state \<and> adsr_phase state' = Decay"
  using assms
proof (induction ts arbitrary: state)
  case Nil
  then show ?case by simp
next
  case (Cons t ts)
  from Cons.prems(4) have t: "tick_key_on t" "decay_rate (tick_operator t) = 0"
    "adsr_attenuation state < push_bit 5 (sustain_level (tick_operator t))"
    "0 \<le> frequency_multiple (tick_operator t)" "frequency_multiple (tick_operator t) < 16"
    "0 \<le> tick_octave t" "tick_octave t < 32"
    by (simp_all add: tick_in_range_def)
  have ph: "tick_phase state (tick_key_on t) = Decay"
    using tick_phase_held [OF t(1) Cons.prems(2)] Cons.prems(1) by simp
  from decay_tick_rate0 [OF ph t(2,3) Cons.prems(3) t(4-7)]
  obtain s' where s': "update nls (tick_operator t) state (tick_key_on t) (tick_period t)
      (tick_octave t) (tick_phase_offset t) (tick_overrides t) = Inr s'"
    "adsr_attenuation s' = adsr_attenuation state" "adsr_phase s' = Decay"
    "last_key_on s' = tick_key_on t" by blast
  from Cons.prems(4) s'(2) have "\<forall>t\<in>set ts. tick_key_on t \<and> decay_rate (tick_operator t) = 0 \<and>
        adsr_attenuation s' < push_bit 5 (sustain_level (tick_operator t)) \<and> tick_in_range t"
    by simp
  from Cons.IH [OF s'(3) _ _ this] s'(2,4) t(1) Cons.prems(3)
  obtain s'' where "ticks nls s' ts = Inr s''" "adsr_attenuation s'' = adsr_attenuation s'"
    "adsr_phase s'' = Decay" by auto
  with s' show ?case by simp
qed

lemma decay_release_tick_not_lower:
  assumes upd: "update nls opr state k p oc off ov = Inr state'"
    and hi: "adsr_attenuation state \<le> 511"
    and ph: "tick_phase state k = Release \<or>
       (tick_phase state k = Decay \<and> adsr_attenuation state \<le> push_bit 5 (sustain_level opr))"
  shows "adsr_attenuation state \<le> adsr_attenuation state'"
proof -
  let ?s3 = "key_on_logic state k"
  from update_envelope [OF upd] obtain s4 where
    s4: "adsr_step opr ?s3 ov = Inr s4" and
    eq: "adsr_attenuation state' = adsr_attenuation s4" by blast
  from ph s4 have "decay_release_step opr ?s3 ov = Inr s4" 
    by (auto simp: adsr_step_def tick_phase_def)
  then obtain a where a: "decrease_attenuation opr ?s3 = Inr a"
    and s4': "s4 = (if adsr_phase ?s3 = Decay \<and> min a 511 \<ge> push_bit 5 (sustain_level opr)
           then ?s3\<lparr>adsr_attenuation := push_bit 5 (sustain_level opr),
                  adsr_phase :=
                    (if (case ov of Some v \<Rightarrow> ov_use_sustain_level v | None \<Rightarrow> False)
                        \<or> use_sustain_level opr
                     then Sustain else Release)\<rparr>
           else ?s3\<lparr>adsr_attenuation := min a 511\<rparr>)"
    by (rule decay_release_step_Inr)
  from decrease_attenuation_bounds(1) [OF a] hi 
  have m: "adsr_attenuation state \<le> min a 511" by simp
  define exits where
    "exits \<longleftrightarrow> adsr_phase ?s3 = Decay \<and> min a 511 \<ge> push_bit 5 (sustain_level opr)"
  show ?thesis
  proof (cases exits)
    case True
    with s4' have "adsr_attenuation s4 = push_bit 5 (sustain_level opr)"
      unfolding exits_def [symmetric] by simp
    moreover from True ph
    have "adsr_attenuation state \<le> push_bit 5 (sustain_level opr)"
      by (auto simp: exits_def tick_phase_def)
    ultimately show ?thesis using eq by simp
  next
    case False
    with s4' have "adsr_attenuation s4 = min a 511"
      unfolding exits_def [symmetric] by simp
    with m eq show ?thesis by simp
  qed
qed

lemma update_raw_phase_result:
  assumes upd: "update nls opr state k p oc off ov = Inr state'"
  shows "raw_phase state' = raw_phase state + phase_increment (frequency_multiple opr) p oc"
    "0 \<le> frequency_multiple opr" "frequency_multiple opr < 16" "0 \<le> oc" "oc < 32"
proof -
  from upd obtain s1 s4 where
    s1: "update_raw_phase opr state p oc = Inr s1" and
    s4: "adsr_step opr (key_on_logic (update_waveform nls opr s1 off) k) ov = Inr s4" and
    st: "state' = combine_attenuation opr
           (count_tick (adsr_phase (key_on_logic (update_waveform nls opr s1 off) k)) s4) ov"
    by (rule update_Inr_cases)
  have "raw_phase state' = raw_phase s4"
    by (simp add: st combine_attenuation_def count_tick_def)
  also have "\<dots> = raw_phase s1"
    using adsr_step_fields(2) [OF s4] by (simp add: key_on_logic_def update_waveform_def)
  finally show "raw_phase state' = raw_phase state + phase_increment (frequency_multiple opr) p oc"
    using update_raw_phase_Inr [OF s1] by simp
  from s1 show "0 \<le> frequency_multiple opr" "frequency_multiple opr < 16" "0 \<le> oc" "oc < 32"
    by (simp_all add: update_raw_phase_def split: if_splits)
qed

lemma phase_increment_add:
  "phase_increment m (p + q) oc = phase_increment m p oc + phase_increment m q oc"
  by (simp add: phase_increment_def distrib_left push_bit_add)

lemma phase_increment_double:
  "phase_increment m (2 * p) oc = 2 * phase_increment m p oc"
  using phase_increment_add [of m p p oc] by simp

subsection \<open>What the register decoders produce\<close>

lemma and_240:
  "(x::int) AND 240 = push_bit 4 (take_bit 4 (drop_bit 4 x))"
proof -
  have e: "(240::int) = push_bit 4 (mask 4)" by (simp add: mask_eq_exp_minus_1)
  show ?thesis
    by (subst e) (rule bit_eqI, auto simp: bit_simps take_bit_eq_mask)
qed

lemma high_nibble:
  fixes v :: "8 word"
  obtains n where "0 \<le> n" "n \<le> 15" "uint (v AND 0xf0) = 16 * n"
proof
  let ?n = "take_bit 4 (drop_bit 4 (uint v))"
  show "0 \<le> ?n" by simp
  have "?n < 2 ^ 4" by (rule take_bit_int_less_exp)
  then show "?n \<le> 15" by simp
  show "uint (v AND 0xf0) = 16 * ?n"
    by (simp add: uint_and and_240 push_bit_eq_mult)
qed

lemma low_nibble: "0 \<le> uint (v AND 0xf) \<and> uint (v AND 0xf) \<le> 15" for v :: "8 word"
proof -
  have "uint (v AND 0xf) = uint v AND 15" by (simp add: uint_and)
  moreover have "uint v AND 15 \<le> 15" by (rule AND_upper2') simp_all
  ultimately show ?thesis by simp
qed

lemma low_six: "0 \<le> uint (v AND 0x3f) \<and> uint (v AND 0x3f) \<le> 63" for v :: "8 word"
proof -
  have "uint (v AND 0x3f) = uint v AND 63" by (simp add: uint_and)
  moreover have "uint v AND 63 \<le> 63" by (rule AND_upper2') simp_all
  ultimately show ?thesis by simp
qed

lemma top_two: "0 \<le> drop_bit 6 (uint v) \<and> drop_bit 6 (uint v) \<le> 3" for v :: "8 word"
proof -
  have "0 \<le> x \<Longrightarrow> x < 256 \<Longrightarrow> 0 \<le> x div 64 \<and> x div 64 \<le> 3" for x :: int
    by presburger
  from this [of "uint v"] uint_lt2p [of v] show ?thesis
    by (simp add: drop_bit_eq_div)
qed

lemma decodable_rate_iff: "decodable_rate r \<longleftrightarrow> (\<exists>n. 0 \<le> n \<and> n \<le> 15 \<and> r = push_bit 2 n)"
  unfolding decodable_rate_def push_bit_eq_mult by (simp, presburger)

lemma set_attack_decay_decodable:
  "decodable_rate (attack_rate (set_attack_decay v opr))"
  "decodable_rate (decay_rate (set_attack_decay v opr))"
proof -
  obtain n where n: "0 \<le> n" "n \<le> 15" "uint (v AND 0xf0) = 16 * n" by (rule high_nibble)
  then have "drop_bit 2 (uint (v AND 0xf0)) = push_bit 2 n"
    by (simp add: drop_bit_eq_div push_bit_eq_mult)
  with n show "decodable_rate (attack_rate (set_attack_decay v opr))"
    unfolding decodable_rate_iff by (auto simp: set_attack_decay_def)
  from low_nibble [of v] show "decodable_rate (decay_rate (set_attack_decay v opr))"
    unfolding decodable_rate_iff by (auto simp: set_attack_decay_def)
qed

lemma set_sustain_release_decodable:
  "0 \<le> sustain_level (set_sustain_release v opr)"
  "sustain_level (set_sustain_release v opr) \<le> 15"
  "decodable_rate (release_rate (set_sustain_release v opr))"
proof -
  obtain n where n: "0 \<le> n" "n \<le> 15" "uint (v AND 0xf0) = 16 * n" by (rule high_nibble)
  then have "drop_bit 4 (uint (v AND 0xf0)) = n"
    by (simp add: drop_bit_eq_div)
  with n show "0 \<le> sustain_level (set_sustain_release v opr)"
    "sustain_level (set_sustain_release v opr) \<le> 15"
    by (simp_all add: set_sustain_release_def)
  from low_nibble [of v] show "decodable_rate (release_rate (set_sustain_release v opr))"
    unfolding decodable_rate_iff by (auto simp: set_sustain_release_def)
qed

lemma decoders_decodable:
  "decodable (set_am_vibrato_hold_sustain_ksr_multiple a (set_scaling_output b
     (set_attack_decay c (set_sustain_release d opr))))"
proof -
  let ?o1 = "set_sustain_release d opr"
  let ?o2 = "set_attack_decay c ?o1"
  have keep: "sustain_level ?o2 = sustain_level ?o1" "release_rate ?o2 = release_rate ?o1"
    by (simp_all add: set_attack_decay_def)
  from set_attack_decay_decodable [of c ?o1] set_sustain_release_decodable [of d opr] keep
    low_nibble [of a] low_six [of b] top_two [of b]
  show ?thesis
    by (simp add: decodable_def set_am_vibrato_hold_sustain_ksr_multiple_def
        set_scaling_output_def)
qed

subsection \<open>Runs and the shift count\<close>

lemma negative_shift_only_rate_12:
  assumes "decodable_rate r" "r \<noteq> 0" "drop_bit 2 r \<noteq> 1" "drop_bit 2 r \<noteq> 2"
  shows "decrease_shift r < 0 \<longleftrightarrow> r = 12"
proof -
  from assms(1) obtain n where n: "0 \<le> n" "n \<le> 15" "r = 4 * n"
    by (auto simp: decodable_rate_iff push_bit_eq_mult)
  then have d: "drop_bit 2 r = n" by (simp add: drop_bit_eq_div)
  with assms(2-4) n have "n \<noteq> 0" "n \<noteq> 1" "n \<noteq> 2" by simp_all
  with n d show ?thesis by (simp add: decrease_shift_def) linarith
qed

lemma ticks_envelope_range:
  assumes "ticks nls state ts = Inr state'"
    and "0 \<le> adsr_attenuation state" "adsr_attenuation state \<le> 511"
    and "\<forall>t\<in>set ts. 0 \<le> sustain_level (tick_operator t) \<and> sustain_level (tick_operator t) \<le> 15"
  shows "0 \<le> adsr_attenuation state' \<and> adsr_attenuation state' \<le> 511"
  using assms
proof (induction ts arbitrary: state)
  case Nil
  then show ?case by simp
next
  case (Cons t ts)
  from Cons.prems(1) obtain s1 where
    u: "update nls (tick_operator t) state (tick_key_on t) (tick_period t) (tick_octave t)
          (tick_phase_offset t) (tick_overrides t) = Inr s1" and
    r: "ticks nls s1 ts = Inr state'"
    by (auto split: sum.splits)
  from update_envelope [OF u] obtain s4 where
    s4: "adsr_step (tick_operator t) (key_on_logic state (tick_key_on t)) (tick_overrides t)
           = Inr s4" and
    eq: "adsr_attenuation s1 = adsr_attenuation s4" by blast
  from Cons.prems(4) have sl: "0 \<le> sustain_level (tick_operator t)"
    "sustain_level (tick_operator t) \<le> 15" by simp_all
  from adsr_step_range [OF s4 _ _ sl] Cons.prems(2,3) eq
  have "0 \<le> adsr_attenuation s1" "adsr_attenuation s1 \<le> 511" by simp_all
  from Cons.IH [OF r this] Cons.prems(4) show ?case by simp
qed

text \<open>The defining equations that evaluate a call on a concrete voice.\<close>

lemmas run_defs = tick_phase_def key_on_logic_def update_def
  update_raw_phase_def phase_increment_def multipliers_def update_waveform_def
  masked_phase_def waveforms_def sample_log_sin_def adsr_step_def attack_step_def
  attack_attenuation_def shift_left_one_def count_tick_def combine_attenuation_def
  decay_release_step_def decrease_attenuation_def decrease_rate_def decrease_shift_def

section \<open>Claims about the operator\<close>

text \<open>
  C1. Envelope range. From any state whose envelope attenuation is within \<open>[0, 511]\<close>, and
  for every decodable configuration, every key-on level, every phase and every pair of
  overrides, one call of \<^verbatim>\<open>Operator::update\<close> leaves the envelope attenuation within
  \<open>[0, 511]\<close>. The call has a result unless it runs into the shift by a negative count of
  the Decay/Release branch, which happens only when the governing rate is 12.
\<close>

theorem update_envelope_range:
  assumes "0 \<le> adsr_attenuation state" "adsr_attenuation state \<le> 511" "decodable opr"
    "0 \<le> octave" "octave < 32"
  shows "case update negative_log_sin opr state key_on period octave phase_offset overrides of
           Inr state' \<Rightarrow> 0 \<le> adsr_attenuation state' \<and> adsr_attenuation state' \<le> 511
         | Inl e \<Rightarrow> e = UndefinedShift \<and> negative_shift_tick opr state key_on"
proof (cases "update negative_log_sin opr state key_on period octave phase_offset overrides")
  case (Inl e)
  from update_Inl_cases [OF Inl assms(3-5)] Inl show ?thesis by simp
next
  case (Inr state')
  from update_envelope [OF Inr] obtain s4 where
    s4: "adsr_step opr (key_on_logic state key_on) overrides = Inr s4" and
    eq: "adsr_attenuation state' = adsr_attenuation s4" by blast
  from assms(3) have "0 \<le> sustain_level opr" "sustain_level opr \<le> 15"
    by (simp_all add: decodable_def)
  from adsr_step_range [OF s4 _ _ this] assms(1,2) eq Inr show ?thesis by simp
qed

theorem update_envelope_range_witness:
  "0 \<le> adsr_attenuation resting_state \<and> adsr_attenuation resting_state \<le> 511 \<and>
   decodable (set_attack_decay 0xf1 blank_operator) \<and> (0::int) \<le> 3 \<and> (3::int) < 32 \<and>
   (case update sample_log_sin (set_attack_decay 0xf1 blank_operator) resting_state True 100 3 0 None of
      Inr state' \<Rightarrow> 0 \<le> adsr_attenuation state' \<and> adsr_attenuation state' \<le> 511
    | Inl e \<Rightarrow> e = UndefinedShift \<and>
        negative_shift_tick (set_attack_decay 0xf1 blank_operator) resting_state True)"
proof -
  have h: "0 \<le> adsr_attenuation resting_state" "adsr_attenuation resting_state \<le> 511"
    "decodable (set_attack_decay 0xf1 blank_operator)" "(0::int) \<le> 3" "(3::int) < 32"
    by (simp_all add: resting_state_def decodable_def decodable_rate_def set_attack_decay_def
        blank_operator_def)
  from h update_envelope_range [where negative_log_sin = sample_log_sin and key_on = True
      and period = 100 and phase_offset = 0 and overrides = None, OF h] show ?thesis by simp
qed

text \<open>
  C2, as amended. In the Attack phase a call of \<^verbatim>\<open>Operator::update\<close> never raises the
  envelope attenuation. On the ticks where the attack step applies (attack rate of at least
  56, or a tick counter that is a multiple of the sample length \<open>1 << (14 - rate / 4)\<close>) the
  step lowers the attenuation strictly, by \<open>(attenuation >> 2) + 1\<close> or
  \<open>(attenuation >> 3) + 1\<close>; on every other tick it leaves the attenuation as it is. The call
  ends in Decay exactly when the attenuation so stepped is at most 0 or the attack rate
  exceeds 60, and then the attenuation is exactly 0; otherwise it ends in Attack with the
  stepped attenuation.
\<close>

theorem attack_envelope:
  assumes att: "tick_phase state key_on = Attack" and lo: "0 \<le> adsr_attenuation state"
    and upd: "update negative_log_sin opr state key_on period octave phase_offset overrides
                = Inr state'"
  shows
    "(let x = adsr_attenuation state;
          applies = (56 \<le> attack_rate opr \<or>
            time_in_phase (key_on_logic state key_on) mod 2 ^ nat (14 - attack_rate opr div 4) = 0);
          stepped = (if 56 \<le> attack_rate opr then x - x div 4 - 1
                     else if applies then x - x div 8 - 1 else x)
      in attack_attenuation opr (key_on_logic state key_on) = Inr stepped \<and>
         (if applies then stepped < x else stepped = x) \<and>
         (adsr_phase state' = Decay) = (stepped \<le> 0 \<or> 60 < attack_rate opr) \<and>
         (adsr_phase state' = Decay \<or> adsr_phase state' = Attack) \<and>
         adsr_attenuation state' = (if adsr_phase state' = Decay then 0 else stepped) \<and>
         (if adsr_phase state' = Decay then adsr_attenuation state' = 0
          else 0 < adsr_attenuation state') \<and>
         adsr_attenuation state' \<le> x \<and>
         (if applies then adsr_attenuation state' < x \<or> x = 0
          else adsr_attenuation state' = x))"
proof -
  let ?s3 = "key_on_logic state key_on"
  let ?x = "adsr_attenuation state"
  define applies where "applies \<longleftrightarrow> 56 \<le> attack_rate opr \<or>
    time_in_phase ?s3 mod 2 ^ nat (14 - attack_rate opr div 4) = 0"
  define stepped where "stepped = (if 56 \<le> attack_rate opr then ?x - ?x div 4 - 1
                else if applies then ?x - ?x div 8 - 1 else ?x)"
  from update_envelope [OF upd] obtain s4 where
    s4: "adsr_step opr ?s3 overrides = Inr s4" and
    eq: "adsr_attenuation state' = adsr_attenuation s4" "adsr_phase state' = adsr_phase s4"
    by blast
  from att have ph: "adsr_phase ?s3 = Attack" by (simp add: tick_phase_def)
  with s4 have "attack_step opr ?s3 = Inr s4" by (simp add: adsr_step_def)
  then obtain a where a: "attack_attenuation opr ?s3 = Inr a"
    and s4': "s4 = (if attack_rate opr > 60 \<or> a \<le> 0
           then ?s3\<lparr>adsr_attenuation := 0, adsr_phase := Decay\<rparr>
           else ?s3\<lparr>adsr_attenuation := a\<rparr>)"
    by (rule attack_step_Inr)
  from lo have f: "?x - ?x div 4 - 1 < ?x" "?x - ?x div 8 - 1 < ?x" by presburger+
  have v: "a = stepped"
    using attack_attenuation_value [OF a] by (simp add: applies_def stepped_def)
  have a_lt: "stepped < ?x" if "applies"
  proof (cases "56 \<le> attack_rate opr")
    case True
    with f(1) show ?thesis by (simp add: stepped_def)
  next
    case False
    with f(2) that show ?thesis by (simp add: stepped_def)
  qed
  have a_eq: "stepped = ?x" if "\<not> applies"
    using that by (simp add: applies_def stepped_def)
  have step: "if applies then stepped < ?x else stepped = ?x"
    using a_lt a_eq by simp
  have main: "attack_attenuation opr ?s3 = Inr stepped \<and>
         (if applies then stepped < ?x else stepped = ?x) \<and>
         (adsr_phase state' = Decay) = (stepped \<le> 0 \<or> 60 < attack_rate opr) \<and>
         (adsr_phase state' = Decay \<or> adsr_phase state' = Attack) \<and>
         adsr_attenuation state' = (if adsr_phase state' = Decay then 0 else stepped) \<and>
         (if adsr_phase state' = Decay then adsr_attenuation state' = 0
          else 0 < adsr_attenuation state') \<and>
         adsr_attenuation state' \<le> ?x \<and>
         (if applies then adsr_attenuation state' < ?x \<or> ?x = 0
          else adsr_attenuation state' = ?x)"
  proof (cases "attack_rate opr > 60 \<or> stepped \<le> 0")
    case True
    with s4' eq v have r: "adsr_attenuation state' = 0" "adsr_phase state' = Decay"
      by simp_all
    have "\<not> applies \<Longrightarrow> attack_rate opr < 56" by (simp add: applies_def)
    with True a_eq lo have "?x = 0" if "\<not> applies" using that by fastforce
    with r lo True a v step show ?thesis by auto
  next
    case False
    with s4' eq ph v have r: "adsr_attenuation state' = stepped" "adsr_phase state' = Attack"
      by simp_all
    from False have "0 < stepped" "\<not> 60 < attack_rate opr" by simp_all
    with r a v step a_lt a_eq show ?thesis by (cases applies) simp_all
  qed
  show ?thesis
    unfolding Let_def by (rule main [unfolded stepped_def applies_def])
qed

theorem attack_envelope_witness:
  "tick_phase attacking_state True = Attack \<and> 0 \<le> adsr_attenuation attacking_state \<and>
   update sample_log_sin blank_operator attacking_state True 100 3 0 None =
     Inr (attacking_state\<lparr>raw_phase := 1600, time_in_phase := 2\<rparr>) \<and>
   adsr_attenuation (attacking_state\<lparr>raw_phase := 1600, time_in_phase := 2\<rparr>) =
     adsr_attenuation attacking_state \<and>
   adsr_phase (attacking_state\<lparr>raw_phase := 1600, time_in_phase := 2\<rparr>) = Attack \<and>
   tick_phase resting_state True = Attack \<and> 0 \<le> adsr_attenuation resting_state \<and>
   update sample_log_sin plucked_operator resting_state True 100 3 0 None =
     Inr \<lparr>attenuation = \<lparr>logsin = 3064, sign = 1\<rparr>, raw_phase = 800, adsr_phase = Attack,
          time_in_phase = 1, adsr_attenuation = 383, last_key_on = True\<rparr> \<and>
   attack_attenuation plucked_operator (key_on_logic resting_state True) = Inr 383 \<and>
   tick_phase open_released_state True = Attack \<and>
   0 \<le> adsr_attenuation open_released_state \<and>
   update sample_log_sin organ_operator open_released_state True 100 3 0 None =
     Inr \<lparr>attenuation = \<lparr>logsin = 4, sign = 1\<rparr>, raw_phase = 17600, adsr_phase = Decay,
          time_in_phase = 0, adsr_attenuation = 0, last_key_on = True\<rparr> \<and>
   attack_attenuation organ_operator (key_on_logic open_released_state True) = Inr (- 1)"
proof -
  have h: "tick_phase attacking_state True = Attack" "0 \<le> adsr_attenuation attacking_state"
    "update sample_log_sin blank_operator attacking_state True 100 3 0 None =
       Inr (attacking_state\<lparr>raw_phase := 1600, time_in_phase := 2\<rparr>)"
    by (simp_all add: run_defs attacking_state_def blank_operator_def)
  have p: "tick_phase resting_state True = Attack" "0 \<le> adsr_attenuation resting_state"
    "update sample_log_sin plucked_operator resting_state True 100 3 0 None =
     Inr \<lparr>attenuation = \<lparr>logsin = 3064, sign = 1\<rparr>, raw_phase = 800, adsr_phase = Attack,
          time_in_phase = 1, adsr_attenuation = 383, last_key_on = True\<rparr>"
    by code_simp+
  have q: "tick_phase open_released_state True = Attack"
    "0 \<le> adsr_attenuation open_released_state"
    "update sample_log_sin organ_operator open_released_state True 100 3 0 None =
     Inr \<lparr>attenuation = \<lparr>logsin = 4, sign = 1\<rparr>, raw_phase = 17600, adsr_phase = Decay,
          time_in_phase = 0, adsr_attenuation = 0, last_key_on = True\<rparr>"
    by code_simp+
  have e: "attack_rate plucked_operator = 60" "attack_rate organ_operator = 60"
    "adsr_attenuation resting_state = 511" "adsr_attenuation open_released_state = 0"
    by code_simp+
  from h attack_envelope [OF h] have a:
    "adsr_attenuation (attacking_state\<lparr>raw_phase := 1600, time_in_phase := 2\<rparr>) =
       adsr_attenuation attacking_state"
    "adsr_phase (attacking_state\<lparr>raw_phase := 1600, time_in_phase := 2\<rparr>) = Attack"
    by (simp_all add: attacking_state_def)
  from attack_envelope [OF p] have b:
    "attack_attenuation plucked_operator (key_on_logic resting_state True) = Inr 383"
    by (simp add: Let_def e)
  from attack_envelope [OF q] have c:
    "attack_attenuation organ_operator (key_on_logic open_released_state True) = Inr (- 1)"
    by (simp add: Let_def e)
  from h p q a b c show ?thesis by simp
qed

theorem attack_not_strict_counterexample:
  "update sample_log_sin blank_operator resting_state True 100 3 0 None = Inr attacking_state \<and>
   tick_phase attacking_state True = Attack \<and>
   map_sum id adsr_attenuation
     (update sample_log_sin blank_operator attacking_state True 100 3 0 None) =
       Inr (adsr_attenuation attacking_state)"
  by (simp add: run_defs blank_operator_def resting_state_def attacking_state_def)

text \<open>
  C3, as amended. From an envelope attenuation of at most 511: a tick in the Release phase
  never lowers the attenuation, and a tick in the Decay phase never lowers it as long as the
  attenuation before the tick does not exceed \<open>sustain_level << 5\<close> (a Decay tick that starts
  above that level is clamped down to it). With a release rate of 0 the attenuation is
  unchanged across any number of consecutive Release ticks, and with a decay rate of 0 it is
  unchanged across any number of consecutive Decay ticks while it is below
  \<open>sustain_level << 5\<close>.
\<close>

theorem decay_release_envelope:
  assumes "adsr_attenuation state \<le> 511"
  shows
    "(update negative_log_sin opr state key_on period octave phase_offset overrides = Inr state' \<and>
      (tick_phase state key_on = Release \<or>
       (tick_phase state key_on = Decay \<and>
        adsr_attenuation state \<le> push_bit 5 (sustain_level opr))) \<longrightarrow>
        adsr_attenuation state \<le> adsr_attenuation state') \<and>
     (adsr_phase state = Release \<and>
      no_rising_edge (last_key_on state) (map tick_key_on ts) \<and>
      (\<forall>t\<in>set ts. release_rate (tick_operator t) = 0 \<and> tick_in_range t) \<longrightarrow>
        (\<exists>state''. ticks negative_log_sin state ts = Inr state'' \<and>
           adsr_attenuation state'' = adsr_attenuation state \<and> adsr_phase state'' = Release)) \<and>
     (adsr_phase state = Decay \<and> last_key_on state \<and>
      (\<forall>t\<in>set ts. tick_key_on t \<and> decay_rate (tick_operator t) = 0 \<and>
         adsr_attenuation state < push_bit 5 (sustain_level (tick_operator t)) \<and>
         tick_in_range t) \<longrightarrow>
        (\<exists>state''. ticks negative_log_sin state ts = Inr state'' \<and>
           adsr_attenuation state'' = adsr_attenuation state \<and> adsr_phase state'' = Decay))"
  using assms decay_release_tick_not_lower release_run_rate0 decay_run_rate0
  by blast

theorem decay_release_envelope_witness:
  "adsr_attenuation resting_state \<le> 511 \<and> tick_phase resting_state False = Release \<and>
   update sample_log_sin organ_operator resting_state False 100 3 0 None =
     Inr (resting_state\<lparr>attenuation := \<lparr>logsin = 4088, sign = 1\<rparr>, raw_phase := 800,
            time_in_phase := 1\<rparr>) \<and>
   adsr_attenuation resting_state \<le>
     adsr_attenuation (resting_state\<lparr>attenuation := \<lparr>logsin = 4088, sign = 1\<rparr>,
       raw_phase := 800, time_in_phase := 1\<rparr>) \<and>
   (\<exists>state''. ticks sample_log_sin resting_state
        [key_tick organ_operator False, key_tick organ_operator False] = Inr state'' \<and>
      adsr_attenuation state'' = adsr_attenuation resting_state \<and>
      adsr_phase state'' = Release) \<and>
   adsr_attenuation decaying_state \<le> 511 \<and> adsr_phase decaying_state = Decay \<and>
   last_key_on decaying_state \<and>
   (\<exists>state''. ticks sample_log_sin decaying_state
        [key_tick (set_attack_decay 0xf0 plucked_operator) True,
         key_tick (set_attack_decay 0xf0 plucked_operator) True] = Inr state'' \<and>
      adsr_attenuation state'' = adsr_attenuation decaying_state \<and>
      adsr_phase state'' = Decay)"
proof -
  let ?r = "resting_state\<lparr>attenuation := \<lparr>logsin = 4088, sign = 1\<rparr>, raw_phase := 800,
            time_in_phase := 1\<rparr>"
  let ?rs = "[key_tick organ_operator False, key_tick organ_operator False]"
  let ?ds = "[key_tick (set_attack_decay 0xf0 plucked_operator) True,
         key_tick (set_attack_decay 0xf0 plucked_operator) True]"
  have r: "adsr_attenuation resting_state \<le> 511" "tick_phase resting_state False = Release"
    "adsr_phase resting_state = Release"
    "no_rising_edge (last_key_on resting_state) (map tick_key_on ?rs)"
    "\<forall>t\<in>set ?rs. release_rate (tick_operator t) = 0 \<and> tick_in_range t"
    by (simp_all add: resting_state_def tick_phase_def key_on_logic_def key_tick_def
        organ_operator_def blank_operator_def set_attack_decay_def set_sustain_release_def
        set_am_vibrato_hold_sustain_ksr_multiple_def tick_in_range_def)
  have u: "update sample_log_sin organ_operator resting_state False 100 3 0 None = Inr ?r"
    by code_simp
  have d: "adsr_attenuation decaying_state \<le> 511" "adsr_phase decaying_state = Decay"
    "last_key_on decaying_state"
    "\<forall>t\<in>set ?ds. tick_key_on t \<and> decay_rate (tick_operator t) = 0 \<and>
       adsr_attenuation decaying_state < push_bit 5 (sustain_level (tick_operator t)) \<and>
       tick_in_range t"
    by (simp_all add: decaying_state_def key_tick_def plucked_operator_def
        blank_operator_def set_attack_decay_def set_sustain_release_def tick_in_range_def)
  from r u
    decay_release_envelope [OF r(1), where negative_log_sin = sample_log_sin
      and opr = organ_operator and key_on = False and period = 100 and octave = 3
      and phase_offset = 0 and overrides = None and state' = ?r and ts = ?rs]
  have a: "adsr_attenuation resting_state \<le> adsr_attenuation ?r"
    "\<exists>state''. ticks sample_log_sin resting_state ?rs = Inr state'' \<and>
      adsr_attenuation state'' = adsr_attenuation resting_state \<and>
      adsr_phase state'' = Release"
    by blast+
  from d
    decay_release_envelope [OF d(1), where negative_log_sin = sample_log_sin and ts = ?ds]
  have b: "\<exists>state''. ticks sample_log_sin decaying_state ?ds = Inr state'' \<and>
      adsr_attenuation state'' = adsr_attenuation decaying_state \<and>
      adsr_phase state'' = Decay"
    by blast
  from r(1,2) u a d(1-3) b show ?thesis by blast
qed

theorem decay_lowers_counterexample:
  "ticks sample_log_sin resting_state (replicate 29 (key_tick plucked_operator True)) =
     Inr decaying_state \<and>
   tick_phase decaying_state True = Decay \<and> adsr_attenuation decaying_state = 40 \<and>
   map_sum id adsr_attenuation
     (update sample_log_sin (set_sustain_release 0x10 plucked_operator) decaying_state
        True 100 3 0 None) = Inr 32"
  by code_simp

text \<open>
  C4, as amended. On a call with the key on and the stored last key-on level off, the key-on
  stage of \<^verbatim>\<open>Operator::update\<close> sets the phase to Attack and the tick counter to 0 whatever
  the prior phase, and the envelope step of the same call runs from there: the call returns
  in Attack with the counter at 1, or, when the attack completes within the call, in Decay
  with the counter at 0 and the attenuation at 0. On a call with the key off the stage forces
  Release with the counter at 0, and the call returns in Release with the counter at 1. The
  stored key-on level always becomes the level of the call.
\<close>



theorem key_on_phase:
  assumes upd: "update negative_log_sin opr state key_on period octave phase_offset overrides
                  = Inr state'"
  shows "last_key_on state' = key_on \<and>
    (if \<not> key_on
     then tick_phase state key_on = Release \<and> time_in_phase (key_on_logic state key_on) = 0 \<and>
          adsr_phase state' = Release \<and> time_in_phase state' = 1
     else if \<not> last_key_on state
     then tick_phase state key_on = Attack \<and> time_in_phase (key_on_logic state key_on) = 0 \<and>
          (adsr_phase state' = Attack \<and> time_in_phase state' = 1 \<or>
           adsr_phase state' = Decay \<and> time_in_phase state' = 0 \<and>
             adsr_attenuation state' = 0)
     else tick_phase state key_on = adsr_phase state \<and>
          time_in_phase (key_on_logic state key_on) = time_in_phase state)"
proof -
  let ?s3 = "key_on_logic state key_on"
  from update_envelope [OF upd] obtain s4 where
    s4: "adsr_step opr ?s3 overrides = Inr s4" and
    eq: "adsr_attenuation state' = adsr_attenuation s4" "adsr_phase state' = adsr_phase s4"
      "time_in_phase state' =
         (if adsr_phase s4 = tick_phase state key_on then time_in_phase s4 + 1 else 0)"
      "last_key_on state' = last_key_on s4"
    by blast
  note f = adsr_step_fields [OF s4]
  have lk: "last_key_on state' = key_on" using eq(4) f(4) by simp
  show ?thesis
  proof (cases key_on)
    case False
    then have k: "tick_phase state key_on = Release" "time_in_phase ?s3 = 0"
      "adsr_phase ?s3 = Release"
      by (simp_all add: tick_phase_def key_on_logic_def)
    with s4 have "decay_release_step opr ?s3 overrides = Inr s4" by (simp add: adsr_step_def)
    then have "adsr_phase s4 = Release"
      by (rule decay_release_step_Inr) (simp add: k(3))
    with k eq f(3) lk False show ?thesis by simp
  next
    case True
    show ?thesis
    proof (cases "last_key_on state")
      case held: True
      with True lk show ?thesis by (simp add: tick_phase_def key_on_logic_def)
    next
      case edge: False
      with True have k: "tick_phase state key_on = Attack" "time_in_phase ?s3 = 0"
        "adsr_phase ?s3 = Attack"
        by (simp_all add: tick_phase_def key_on_logic_def)
      with s4 have "attack_step opr ?s3 = Inr s4" by (simp add: adsr_step_def)
      then have "adsr_phase s4 = Attack \<or> adsr_phase s4 = Decay \<and> adsr_attenuation s4 = 0"
        by (rule attack_step_Inr) (simp add: k(3))
      with k eq f(3) lk True edge show ?thesis by auto
    qed
  qed
qed

theorem key_on_phase_witness:
  "update sample_log_sin plucked_operator resting_state True 100 3 0 None =
     Inr \<lparr>attenuation = \<lparr>logsin = 3064, sign = 1\<rparr>, raw_phase = 800, adsr_phase = Attack,
          time_in_phase = 1, adsr_attenuation = 383, last_key_on = True\<rparr> \<and>
   \<not> last_key_on resting_state \<and> tick_phase resting_state True = Attack \<and>
   update sample_log_sin organ_operator decaying_state False 100 3 0 None =
     Inr (decaying_state\<lparr>attenuation := \<lparr>logsin = 325, sign = 1\<rparr>, raw_phase := 24000,
            adsr_phase := Release, time_in_phase := 1, last_key_on := False\<rparr>) \<and>
   tick_phase decaying_state False = Release"
proof -
  have a: "update sample_log_sin plucked_operator resting_state True 100 3 0 None =
     Inr \<lparr>attenuation = \<lparr>logsin = 3064, sign = 1\<rparr>, raw_phase = 800, adsr_phase = Attack,
          time_in_phase = 1, adsr_attenuation = 383, last_key_on = True\<rparr>"
    by code_simp
  have b: "update sample_log_sin organ_operator decaying_state False 100 3 0 None =
     Inr (decaying_state\<lparr>attenuation := \<lparr>logsin = 325, sign = 1\<rparr>, raw_phase := 24000,
            adsr_phase := Release, time_in_phase := 1, last_key_on := False\<rparr>)"
    by code_simp
  have c: "\<not> last_key_on resting_state" by (simp add: resting_state_def)
  from a b c key_on_phase [OF a] key_on_phase [OF b] show ?thesis by simp
qed

theorem key_on_edge_counterexample:
  "ticks sample_log_sin resting_state
     (replicate 20 (key_tick organ_operator True) @ [key_tick organ_operator False]) =
     Inr open_released_state \<and>
   \<not> last_key_on open_released_state \<and>
   map_sum id adsr_phase
     (update sample_log_sin organ_operator open_released_state True 100 3 0 None) = Inr Decay \<and>
   \<not> last_key_on resting_state \<and>
   map_sum id adsr_phase
     (update sample_log_sin plucked_operator resting_state True 100 3 0 None) = Inr Attack \<and>
   map_sum id time_in_phase
     (update sample_log_sin plucked_operator resting_state True 100 3 0 None) = Inr 1"
  by code_simp

text \<open>
  C5. Output composition. A call of \<^verbatim>\<open>Operator::update\<close> leaves as output attenuation the
  magnitude that \<^verbatim>\<open>negative_log_sin\<close> gives for the masked phase of the advanced
  accumulator, plus, when overrides are supplied, the envelope attenuation and sixteen times
  the override attenuation, and otherwise eight times the envelope attenuation and
  thirty-two times the operator's own attenuation.
\<close>

theorem output_composition:
  assumes upd: "update negative_log_sin opr state key_on period octave phase_offset overrides
                  = Inr state'"
  shows "logsin (attenuation state') =
           logsin (negative_log_sin (masked_phase opr
             (state\<lparr>raw_phase := raw_phase state +
                phase_increment (frequency_multiple opr) period octave\<rparr>) phase_offset)) +
           (case overrides of
              Some ov \<Rightarrow> adsr_attenuation state' + ov_attenuation ov * 16
            | None \<Rightarrow> adsr_attenuation state' * 8 + op_attenuation opr * 32)"
proof -
  from upd obtain s1 s4 where
    s1: "update_raw_phase opr state period octave = Inr s1" and
    s4: "adsr_step opr (key_on_logic (update_waveform negative_log_sin opr s1 phase_offset) key_on)
           overrides = Inr s4" and
    st: "state' = combine_attenuation opr
           (count_tick (adsr_phase (key_on_logic
              (update_waveform negative_log_sin opr s1 phase_offset) key_on)) s4) overrides"
    by (rule update_Inr_cases)
  have w: "attenuation s4 = negative_log_sin (masked_phase opr s1 phase_offset)"
    using adsr_step_fields(1) [OF s4] by (simp add: key_on_logic_def update_waveform_def)
  have a: "adsr_attenuation state' = adsr_attenuation s4"
    by (simp add: st combine_attenuation_def count_tick_def)
  have "logsin (attenuation state') = logsin (attenuation s4) +
      (case overrides of
         Some ov \<Rightarrow> adsr_attenuation s4 + push_bit 4 (ov_attenuation ov)
       | None \<Rightarrow> push_bit 3 (adsr_attenuation s4) + push_bit 5 (op_attenuation opr))"
    by (cases overrides) (simp_all add: st combine_attenuation_def count_tick_def)
  with w a update_raw_phase_Inr [OF s1] show ?thesis
    by (simp add: push_bit_eq_mult split: option.splits)
qed

theorem output_composition_witness:
  "update sample_log_sin plucked_operator resting_state True 100 3 0 None =
     Inr \<lparr>attenuation = \<lparr>logsin = 3064, sign = 1\<rparr>, raw_phase = 800, adsr_phase = Attack,
          time_in_phase = 1, adsr_attenuation = 383, last_key_on = True\<rparr> \<and>
   (3064::int) = 0 + (383 * 8 + 0 * 32) \<and>
   update sample_log_sin plucked_operator resting_state True 100 3 0
       (Some \<lparr>ov_attenuation = 5, ov_use_sustain_level = False\<rparr>) =
     Inr \<lparr>attenuation = \<lparr>logsin = 463, sign = 1\<rparr>, raw_phase = 800, adsr_phase = Attack,
          time_in_phase = 1, adsr_attenuation = 383, last_key_on = True\<rparr> \<and>
   (463::int) = 0 + (383 + 5 * 16)"
proof -
  have a: "update sample_log_sin plucked_operator resting_state True 100 3 0 None =
     Inr \<lparr>attenuation = \<lparr>logsin = 3064, sign = 1\<rparr>, raw_phase = 800, adsr_phase = Attack,
          time_in_phase = 1, adsr_attenuation = 383, last_key_on = True\<rparr>"
    by code_simp
  have b: "update sample_log_sin plucked_operator resting_state True 100 3 0
       (Some \<lparr>ov_attenuation = 5, ov_use_sustain_level = False\<rparr>) =
     Inr \<lparr>attenuation = \<lparr>logsin = 463, sign = 1\<rparr>, raw_phase = 800, adsr_phase = Attack,
          time_in_phase = 1, adsr_attenuation = 383, last_key_on = True\<rparr>"
    by code_simp
  from a b output_composition [OF a] output_composition [OF b] show ?thesis by simp
qed

text \<open>
  C6, as amended. \<^verbatim>\<open>Operator::is_audible\<close> returns false exactly when the envelope
  attenuation is 511, or the phase is Release and the governing attenuation (the override's
  when overrides are supplied, the operator's own otherwise) is at its maximum, 15 or 63;
  either condition alone is enough.
\<close>

theorem is_audible_iff:
  "is_audible opr state overrides = False \<longleftrightarrow>
     (adsr_phase state = Release \<and>
      (case overrides of
         Some ov \<Rightarrow> ov_attenuation ov = 15
       | None \<Rightarrow> op_attenuation opr = 63)) \<or>
     adsr_attenuation state = 511"
  by (auto simp: is_audible_def)

theorem is_audible_counterexample:
  "is_audible blank_operator resting_state None = False \<and>
   op_attenuation blank_operator \<noteq> 63 \<and>
   is_audible (set_scaling_output 0x3f blank_operator) open_released_state None = False \<and>
   adsr_attenuation open_released_state \<noteq> 511"
  by (simp add: is_audible_def blank_operator_def resting_state_def open_released_state_def
      set_scaling_output_def)

text \<open>
  C7. Phase increment. A call of \<^verbatim>\<open>Operator::update\<close> advances the raw phase accumulator by
  the entry of the table 1, 2, 4, 6, 8, 10, 12, 14, 16, 18, 20, 20, 24, 24, 30, 30 selected by
  the frequency multiple, times the channel period, shifted left by the channel octave,
  modulo \<open>2 ^ 32\<close>. The increment is additive in the channel period; in particular doubling
  the period doubles it.
\<close>

theorem phase_accumulator_increment:
  assumes upd: "update negative_log_sin opr state key_on period octave phase_offset overrides
                  = Inr state'"
  shows "raw_phase state' - raw_phase state =
           phase_increment (frequency_multiple opr) period octave \<and>
         phase_increment (frequency_multiple opr) period octave =
           push_bit (nat octave)
             (word_of_int ([1, 2, 4, 6, 8, 10, 12, 14, 16, 18, 20, 20, 24, 24, 30, 30]
                 ! nat (frequency_multiple opr) * period)) \<and>
         phase_increment (frequency_multiple opr) (2 * period) octave =
           2 * phase_increment (frequency_multiple opr) period octave \<and>
         phase_increment (frequency_multiple opr) (period + other_period) octave =
           phase_increment (frequency_multiple opr) period octave +
           phase_increment (frequency_multiple opr) other_period octave"
  using update_raw_phase_result(1) [OF upd]
  by (simp add: phase_increment_add phase_increment_double)
     (simp add: phase_increment_def multipliers_def)

theorem phase_accumulator_increment_witness:
  "update sample_log_sin plucked_operator resting_state True 100 3 0 None =
     Inr \<lparr>attenuation = \<lparr>logsin = 3064, sign = 1\<rparr>, raw_phase = 800, adsr_phase = Attack,
          time_in_phase = 1, adsr_attenuation = 383, last_key_on = True\<rparr> \<and>
   phase_increment (frequency_multiple plucked_operator) 100 3 = 800 \<and>
   phase_increment (frequency_multiple plucked_operator) (2 * 100) 3 = 1600"
proof -
  have a: "update sample_log_sin plucked_operator resting_state True 100 3 0 None =
     Inr \<lparr>attenuation = \<lparr>logsin = 3064, sign = 1\<rparr>, raw_phase = 800, adsr_phase = Attack,
          time_in_phase = 1, adsr_attenuation = 383, last_key_on = True\<rparr>"
    by code_simp
  from a phase_accumulator_increment [OF a] show ?thesis
    by (simp add: resting_state_def)
qed

text \<open>
  C10. The shift count of the Decay/Release default case. The decoder turns the release
  nibble 3 into the rate 12, for which \<^verbatim>\<open>(decrease_rate >> 2) - 4\<close> is \<open>-1\<close>: the call
  shifts by a negative count and has no defined result.
\<close>

theorem release_rate_12_undefined:
  "release_rate (set_sustain_release 0x03 blank_operator) = 12 \<and>
   decodable (set_sustain_release 0x03 blank_operator) \<and>
   decrease_shift (release_rate (set_sustain_release 0x03 blank_operator)) = - 1 \<and>
   update sample_log_sin (set_sustain_release 0x03 blank_operator) resting_state False 100 3 0 None
     = Inl UndefinedShift"
  by (simp add: run_defs set_sustain_release_def blank_operator_def resting_state_def
      decodable_def decodable_rate_def)

section \<open>Claims about the OPLL front-end\<close>

lemma setup_fixed_instrument_frame:
  "setup_fixed_instrument number data s =
     s\<lparr>operators := operators (setup_fixed_instrument number data s)\<rparr>"
  "length (operators (setup_fixed_instrument number data s)) = length (operators s)"
  "i \<noteq> number * 2 \<Longrightarrow> i \<noteq> number * 2 + 1 \<Longrightarrow>
     operators (setup_fixed_instrument number data s) ! i = operators s ! i"
  by (simp_all add: setup_fixed_instrument_def Let_def)

lemma drop_eq_nth:
  assumes "length xs = length ys" "\<forall>i. n \<le> i \<longrightarrow> xs ! i = ys ! i"
  shows "drop n xs = drop n ys"
  using assms by (intro nth_equalityI) simp_all

lemma fold_preserves:
  assumes "\<And>x s. h (f x s) = h s"
  shows "h (fold f xs s) = h s"
  by (induction xs arbitrary: s) (simp_all add: assms)

lemma setup_fixed_instrument_audio_divider:
  "audio_divider (setup_fixed_instrument number data s) = audio_divider s"
  by (simp add: setup_fixed_instrument_def Let_def)

text \<open>
  C8. Writing the custom instrument. The task of an OPLL register write to an address from 0
  to 7 changes the stored custom-instrument byte at that address and the operators in slots
  0 and 1, and nothing else: the operators in the slots from 2 on (the fifteen fixed
  instruments and the three rhythm patches), every channel and every other member of the
  chip stay as they were.
\<close>

theorem custom_instrument_write_frame:
  assumes "address < 8"
  shows "(let s' = write_register set_frequency_low set_9bit_frequency_octave_key_on
                     address val s
          in s' = s\<lparr>custom_instrument := (custom_instrument s)[unat address := val],
                     operators := operators s'\<rparr> \<and>
             length (operators s') = length (operators s) \<and>
             drop 2 (operators s') = drop 2 (operators s) \<and>
             channels s' = channels s)"
proof -
  let ?s1 = "s\<lparr>custom_instrument := (custom_instrument s)[unat address := val]\<rparr>"
  let ?s' = "setup_fixed_instrument 0 (\<lambda>k. custom_instrument ?s1 ! k) ?s1"
  from assms have w: "write_register set_frequency_low set_9bit_frequency_octave_key_on
      address val s = ?s'"
    by (simp add: write_register_def Let_def)
  have len: "length (operators ?s') = length (operators s)"
    by (simp add: setup_fixed_instrument_frame(2))
  have "operators ?s' ! i = operators s ! i" if "2 \<le> i" for i
    using that by (simp add: setup_fixed_instrument_frame(3))
  with len have dr: "drop 2 (operators ?s') = drop 2 (operators s)"
    by (intro drop_eq_nth) simp_all
  have eq: "?s' = ?s1\<lparr>operators := operators ?s'\<rparr>"
    by (rule setup_fixed_instrument_frame(1))
  have ch: "channels ?s' = channels s"
    by (subst eq) simp
  from eq have "?s' = s\<lparr>custom_instrument := (custom_instrument s)[unat address := val],
                     operators := operators ?s'\<rparr>" by simp
  with len dr ch show ?thesis unfolding w Let_def by blast
qed

theorem custom_instrument_write_frame_witness:
  "(4 :: 8 word) < 8 \<and>
   write_register (\<lambda>v c. c) (\<lambda>v c. c) 4 0xf1 blank_chip =
     blank_chip\<lparr>custom_instrument := (custom_instrument blank_chip)[unat (4 :: 8 word) := 0xf1],
       operators := operators (write_register (\<lambda>v c. c) (\<lambda>v c. c) 4 0xf1 blank_chip)\<rparr> \<and>
   attack_rate (operators (write_register (\<lambda>v c. c) (\<lambda>v c. c) 4 0xf1 blank_chip) ! 0) = 60 \<and>
   drop 2 (operators (write_register (\<lambda>v c. c) (\<lambda>v c. c) 4 0xf1 blank_chip)) =
     drop 2 (operators blank_chip)"
proof -
  have h: "(4 :: 8 word) < 8" by simp
  have a: "attack_rate (operators (write_register (\<lambda>v c. c) (\<lambda>v c. c) 4 0xf1 blank_chip) ! 0) = 60"
    by (simp add: write_register_def blank_chip_def setup_fixed_instrument_def
        set_attack_decay_def set_sustain_release_def set_waveform_def set_scaling_output_def
        set_am_vibrato_hold_sustain_ksr_multiple_def)
  from h a custom_instrument_write_frame [OF h, of "\<lambda>v c. c" "\<lambda>v c. c" "0xf1" blank_chip]
  show ?thesis by (simp add: Let_def)
qed

text \<open>
  C9. The divider precondition. Constructing an OPLL ends in the failed assertion exactly
  when the audio divider is greater than 4; for every divider of at most 4 the construction
  yields a chip, which carries that divider.
\<close>

theorem construct_divider:
  "(OPLL_construct fresh opll_patch_set vrc7_patch_set percussion_patch_set divider is_vrc7
      = Inl AssertionFailed) = (4 < divider) \<and>
   (\<exists>chip. OPLL_construct fresh opll_patch_set vrc7_patch_set percussion_patch_set divider
      is_vrc7 = Inr chip \<and> audio_divider chip = divider) = (divider \<le> 4)"
proof (cases "divider \<le> 4")
  case True
  let ?patch = "if is_vrc7 then vrc7_patch_set else opll_patch_set"
  let ?s1 = "fold (\<lambda>c. setup_fixed_instrument (c + 1) (\<lambda>k. ?patch (8 * c + k)))
                   [0..<15] (fresh\<lparr>audio_divider := divider\<rparr>)"
  let ?s2 = "fold (\<lambda>c. setup_fixed_instrument (c + 16) (\<lambda>k. percussion_patch_set (c * 8 + k)))
                   [0..<3] ?s1"
  let ?s3 = "fold (\<lambda>c s. s\<lparr>channels :=
                         (channels s)[c := (channels s ! c)\<lparr>channel_modulator := 0\<rparr>]\<rparr>)
                   [0..<9] ?s2"
  from True have c: "OPLL_construct fresh opll_patch_set vrc7_patch_set percussion_patch_set
      divider is_vrc7 = Inr ?s3"
    by (simp add: OPLL_construct_def Let_def)
  have "audio_divider ?s3 = audio_divider ?s2"
    by (rule fold_preserves) simp
  also have "\<dots> = audio_divider ?s1"
    by (rule fold_preserves) (rule setup_fixed_instrument_audio_divider)
  also have "\<dots> = audio_divider (fresh\<lparr>audio_divider := divider\<rparr>)"
    by (rule fold_preserves) (rule setup_fixed_instrument_audio_divider)
  finally have "audio_divider ?s3 = divider" by simp
  with c True show ?thesis by simp
next
  case False
  then show ?thesis by (simp add: OPLL_construct_def Let_def)
qed

theorem construct_divider_witness:
  "OPLL_construct blank_chip (\<lambda>k. 0) (\<lambda>k. 0) (\<lambda>k. 0) 5 False = Inl AssertionFailed \<and>
   (\<exists>chip. OPLL_construct blank_chip (\<lambda>k. 0) (\<lambda>k. 0) (\<lambda>k. 0) 4 False = Inr chip \<and>
      audio_divider chip = 4)"
  using construct_divider [of blank_chip "\<lambda>k. 0" "\<lambda>k. 0" "\<lambda>k. 0" 5 False]
    construct_divider [of blank_chip "\<lambda>k. 0" "\<lambda>k. 0" "\<lambda>k. 0" 4 False]
  by simp

end
